theory Spec2Isabelle
  imports Main "HOL-Library.Char_ord" "HOL-Library.List_Lexorder" "HOL-Library.AList"
begin

section \<open>JavaScript values and strings\<close>

text \<open>
  Strings are lists of code units. The model covers the code units 0..255 (\<open>char\<close>);
  with \<open>Char_ord\<close> and \<open>List_Lexorder\<close> the order on \<open>string\<close> is the
  code-unit-wise lexicographic order (a proper prefix is smaller), which is the order of
  JavaScript's default \<open>Array.prototype.sort\<close> on strings.

  Numbers are the integral ones. \<open>JNum n\<close> stands for the JavaScript number \<open>n\<close>; every
  integer up to 2^53 in magnitude is one, and a number below 10^21 in magnitude is
  printed in plain decimal, which is how the model prints every number (JavaScript
  prints 10^21 as \<open>1e+21\<close>). An object is the list of its own enumerable properties in
  \<open>Object.keys\<close> order (keys pairwise distinct in a well-formed object).
  \<open>JPromise v\<close> is a promise object that is fulfilled with \<open>v\<close>.
\<close>

datatype jsval =
    JUndefined
  | JNull
  | JBool bool
  | JNum int
  | JStr string
  | JArr "jsval list"
  | JObj "(string \<times> jsval) list"
  | JPromise jsval

definition digit_char :: "nat \<Rightarrow> char" where
  "digit_char d = ''0123456789'' ! d"

fun show_nat :: "nat \<Rightarrow> string" where
  "show_nat n = (if n < 10 then [digit_char n] else show_nat (n div 10) @ [digit_char (n mod 10)])"

declare show_nat.simps [simp del]

definition show_int :: "int \<Rightarrow> string" where
  "show_int i = (if i < 0 then ''-'' @ show_nat (nat (- i)) else show_nat (nat i))"

text \<open>\<open>Array.prototype.join\<close> on an array of strings.\<close>

fun join :: "string \<Rightarrow> string list \<Rightarrow> string" where
  "join sep [] = []"
| "join sep [x] = x"
| "join sep (x # y # ys) = x @ sep @ join sep (y # ys)"

text \<open>The abstract operation ToString, as applied by template literals and \<open>String(v)\<close>.\<close>

fun ToString :: "jsval \<Rightarrow> string" where
  "ToString JUndefined = ''undefined''"
| "ToString JNull = ''null''"
| "ToString (JBool b) = (if b then ''true'' else ''false'')"
| "ToString (JNum n) = show_int n"
| "ToString (JStr s) = s"
| "ToString (JArr xs) =
     join '','' (map (\<lambda>x. if x = JUndefined \<or> x = JNull then [] else ToString x) xs)"
| "ToString (JObj kvs) = ''[object Object]''"
| "ToString (JPromise v) = ''[object Promise]''"

text \<open>Truthiness (ToBoolean), as tested by \<open>if (data)\<close>.\<close>

fun truthy :: "jsval \<Rightarrow> bool" where
  "truthy JUndefined = False"
| "truthy JNull = False"
| "truthy (JBool b) = b"
| "truthy (JNum n) = (n \<noteq> 0)"
| "truthy (JStr s) = (s \<noteq> [])"
| "truthy (JArr xs) = True"
| "truthy (JObj kvs) = True"
| "truthy (JPromise v) = True"

subsection \<open>encodeURIComponent\<close>

text \<open>
  Every code unit outside the unreserved set is replaced by the percent-encoded bytes of
  its UTF-8 encoding (one byte below 128, two bytes for 128..255). The built-in throws
  only on a lone surrogate, which is not a code unit of this model.
\<close>

definition uri_unreserved :: "char \<Rightarrow> bool" where
  "uri_unreserved c =
     (c \<in> set ''ABCDEFGHIJKLMNOPQRSTUVWXYZabcdefghijklmnopqrstuvwxyz0123456789-_.!~*()''
      \<or> c = CHR 0x27)"

definition hex_upper :: "nat \<Rightarrow> char" where
  "hex_upper d = ''0123456789ABCDEF'' ! d"

definition pct :: "nat \<Rightarrow> string" where
  "pct b = [CHR ''%'', hex_upper (b div 16), hex_upper (b mod 16)]"

definition encode_unit :: "char \<Rightarrow> string" where
  "encode_unit c =
     (if uri_unreserved c then [c]
      else let n = (of_char c :: nat)
           in if n < 128 then pct n else pct (192 + n div 64) @ pct (128 + n mod 64))"

definition encodeURIComponent :: "jsval \<Rightarrow> string" where
  "encodeURIComponent v = concat (map encode_unit (ToString v))"

section \<open>Cache key generation\<close>

text \<open>
  \<^verbatim>\<open>
  async generateCacheKey(endpoint, query = {}) {
    try {
      if (!query || Object.keys(query).length === 0) { return endpoint; }
      const queryString = Object.keys(query)
        .sort()
        .filter(key => query[key] !== undefined && query[key] !== null)
        .map(key => `${key}=${encodeURIComponent(query[key])}`)
        .join('&');
      return `${endpoint}${queryString ? `?${queryString}` : ''}`;
    } catch (error) { return endpoint; }
  }
  \<close>
  The query argument is an object; an omitted one defaults to the empty object and a null
  one is caught by \<open>!query\<close>, both with the result of the empty object. Nothing in the
  \<open>try\<close> block throws on the values of this model, so the \<open>catch\<close> branch is not
  reached.
\<close>

type_synonym query = "(string \<times> jsval) list"

definition Object_keys :: "query \<Rightarrow> string list" where
  "Object_keys query = map fst query"

definition property :: "query \<Rightarrow> string \<Rightarrow> jsval" where
  "property query key = (case map_of query key of None \<Rightarrow> JUndefined | Some v \<Rightarrow> v)"

definition generateCacheKey_body :: "string \<Rightarrow> query \<Rightarrow> string" where
  "generateCacheKey_body endpoint query =
     (if length (Object_keys query) = 0 then endpoint
      else let queryString =
                 join ''&''
                   (map (\<lambda>key. key @ ''='' @ encodeURIComponent (property query key))
                     (filter (\<lambda>key. property query key \<noteq> JUndefined \<and> property query key \<noteq> JNull)
                       (sort (Object_keys query))))
           in endpoint @ (if queryString \<noteq> [] then ''?'' @ queryString else []))"

text \<open>The function is declared \<open>async\<close>: a call returns a promise fulfilled with the
  value the body returns.\<close>

definition generateCacheKey :: "string \<Rightarrow> query \<Rightarrow> jsval" where
  "generateCacheKey endpoint query = JPromise (JStr (generateCacheKey_body endpoint query))"

text \<open>
  The parts of the key as the specification names them: the keys whose value is neither
  null nor undefined, sorted; and the text \<open>key=url-encoded-value\<close> of one key.
\<close>

definition present :: "query \<Rightarrow> string \<Rightarrow> bool" where
  "present query key = (property query key \<noteq> JUndefined \<and> property query key \<noteq> JNull)"

definition kept_keys :: "query \<Rightarrow> string list" where
  "kept_keys query = sort (filter (present query) (Object_keys query))"

definition pair_text :: "query \<Rightarrow> string \<Rightarrow> string" where
  "pair_text query key = key @ ''='' @ encodeURIComponent (property query key)"

text \<open>
  The algorithm as claim C3 words it: endpoint for the empty mapping, otherwise always
  the \<open>?\<close> and the joined pairs.
\<close>

definition spec_generateCacheKey :: "string \<Rightarrow> query \<Rightarrow> string" where
  "spec_generateCacheKey endpoint query =
     (if query = [] then endpoint
      else endpoint @ ''?'' @ join ''&'' (map (pair_text query) (kept_keys query)))"

section \<open>JSON\<close>

subsection \<open>JSON.stringify\<close>

text \<open>
  \<open>JSON.stringify(v)\<close> is \<open>undefined\<close> (here \<open>None\<close>) for \<open>undefined\<close>; inside an
  array \<open>undefined\<close> is written as \<open>null\<close>, inside an object the property is left out.
  A promise has no own enumerable property and is written as the empty object.
\<close>

definition hex_lower :: "nat \<Rightarrow> char" where
  "hex_lower d = ''0123456789abcdef'' ! d"

definition quote_unit :: "char \<Rightarrow> string" where
  "quote_unit c =
     (if c = CHR 0x22 then [CHR 0x5C, CHR 0x22]
      else if c = CHR 0x5C then [CHR 0x5C, CHR 0x5C]
      else if c = CHR 0x08 then [CHR 0x5C, CHR ''b'']
      else if c = CHR 0x0C then [CHR 0x5C, CHR ''f'']
      else if c = CHR 0x0A then [CHR 0x5C, CHR ''n'']
      else if c = CHR 0x0D then [CHR 0x5C, CHR ''r'']
      else if c = CHR 0x09 then [CHR 0x5C, CHR ''t'']
      else if (of_char c :: nat) < 32
        then [CHR 0x5C, CHR ''u'', CHR ''0'', CHR ''0'',
              hex_lower (of_char c div 16), hex_lower (of_char c mod 16)]
      else [c])"

definition QuoteJSONString :: "string \<Rightarrow> string" where
  "QuoteJSONString s = [CHR 0x22] @ concat (map quote_unit s) @ [CHR 0x22]"

fun JSON_stringify :: "jsval \<Rightarrow> string option" where
  "JSON_stringify JUndefined = None"
| "JSON_stringify JNull = Some ''null''"
| "JSON_stringify (JBool b) = Some (if b then ''true'' else ''false'')"
| "JSON_stringify (JNum n) = Some (show_int n)"
| "JSON_stringify (JStr s) = Some (QuoteJSONString s)"
| "JSON_stringify (JArr xs) =
     Some (''['' @
           join '','' (map (\<lambda>x. case JSON_stringify x of None \<Rightarrow> ''null'' | Some s \<Rightarrow> s) xs) @
           '']'')"
| "JSON_stringify (JObj kvs) =
     Some (''{'' @
           join '',''
             (concat (map (\<lambda>kv. case JSON_stringify (snd kv) of
                                    None \<Rightarrow> []
                                  | Some s \<Rightarrow> [QuoteJSONString (fst kv) @ '':'' @ s]) kvs)) @
           ''}'')"
| "JSON_stringify (JPromise v) = Some ''{}''"

subsection \<open>JSON.parse\<close>

text \<open>
  A recursive-descent reader of JSON text for the values of this model. A number token
  with a fraction or an exponent, and a \<open>\u\<close> escape of a code unit above 255, denote
  values outside the model and are reported like malformed text. An integer token is
  read exactly, also above 2^53 where JavaScript rounds to the nearest number, and the
  members of an object are kept in the order of the text, where JavaScript moves keys
  that are array indices to the front. On the text of a value built from null, booleans,
  integers up to 2^53 in magnitude, strings, arrays, and objects whose keys are in
  \<open>Object.keys\<close> order, the reader and \<open>JSON.parse\<close> agree. The recursion carries
  fuel; \<open>JSON_parse\<close> supplies more than the length of the text, and every recursive call
  follows the consumption of at least one character.
\<close>

datatype err = ReplyError | ConnectionError | TimeoutError | SyntaxError | TypeError

definition is_ws :: "char \<Rightarrow> bool" where
  "is_ws c = (c = CHR '' '' \<or> c = CHR 0x09 \<or> c = CHR 0x0A \<or> c = CHR 0x0D)"

definition skip_ws :: "string \<Rightarrow> string" where
  "skip_ws s = dropWhile is_ws s"

definition is_digit :: "char \<Rightarrow> bool" where
  "is_digit c = (48 \<le> (of_char c :: nat) \<and> (of_char c :: nat) \<le> 57)"

definition digit_val :: "char \<Rightarrow> nat" where
  "digit_val c = of_char c - 48"

definition read_nat :: "string \<Rightarrow> nat" where
  "read_nat s = foldl (\<lambda>n c. 10 * n + digit_val c) 0 s"

definition hex_val :: "char \<Rightarrow> nat option" where
  "hex_val c =
     (let n = (of_char c :: nat)
      in if 48 \<le> n \<and> n \<le> 57 then Some (n - 48)
         else if 65 \<le> n \<and> n \<le> 70 then Some (n - 55)
         else if 97 \<le> n \<and> n \<le> 102 then Some (n - 87)
         else None)"

definition unescape :: "char \<Rightarrow> char option" where
  "unescape e =
     (if e = CHR 0x22 then Some (CHR 0x22)
      else if e = CHR 0x5C then Some (CHR 0x5C)
      else if e = CHR ''/'' then Some (CHR ''/'')
      else if e = CHR ''b'' then Some (CHR 0x08)
      else if e = CHR ''f'' then Some (CHR 0x0C)
      else if e = CHR ''n'' then Some (CHR 0x0A)
      else if e = CHR ''r'' then Some (CHR 0x0D)
      else if e = CHR ''t'' then Some (CHR 0x09)
      else None)"

definition cons_fst :: "'a \<Rightarrow> ('a list \<times> 'b) option \<Rightarrow> ('a list \<times> 'b) option" where
  "cons_fst x r = (case r of None \<Rightarrow> None | Some (xs, rest) \<Rightarrow> Some (x # xs, rest))"

text \<open>The characters of a string literal after its opening quote, up to the closing one.\<close>

fun parse_string_body :: "string \<Rightarrow> (string \<times> string) option" where
  "parse_string_body [] = None"
| "parse_string_body (c # cs) =
     (if c = CHR 0x22 then Some ([], cs)
      else if c = CHR 0x5C then
        (case cs of
           [] \<Rightarrow> None
         | e # cs' \<Rightarrow>
             if e = CHR ''u'' then
               (case cs' of
                  h1 # h2 # h3 # h4 # rest \<Rightarrow>
                    (case (hex_val h1, hex_val h2, hex_val h3, hex_val h4) of
                       (Some a, Some b, Some c', Some d) \<Rightarrow>
                         (let n = ((a * 16 + b) * 16 + c') * 16 + d
                          in if n < 256 then cons_fst (char_of n) (parse_string_body rest)
                             else None)
                     | _ \<Rightarrow> None)
                | _ \<Rightarrow> None)
             else (case unescape e of
                     None \<Rightarrow> None
                   | Some d \<Rightarrow> cons_fst d (parse_string_body cs')))
      else if (of_char c :: nat) < 32 then None
      else cons_fst c (parse_string_body cs))"

definition parse_number :: "string \<Rightarrow> (jsval \<times> string) option" where
  "parse_number s =
     (let neg = (s \<noteq> [] \<and> hd s = CHR ''-'');
          body = (if neg then tl s else s);
          ds = takeWhile is_digit body;
          rest = dropWhile is_digit body
      in if ds = [] \<or> (1 < length ds \<and> hd ds = CHR ''0'') then None
         else if rest \<noteq> [] \<and> (hd rest = CHR ''.'' \<or> hd rest = CHR ''e'' \<or> hd rest = CHR ''E'')
           then None
         else Some (JNum (if neg then - int (read_nat ds) else int (read_nat ds)), rest))"

definition literal :: "string \<Rightarrow> jsval \<Rightarrow> string \<Rightarrow> (jsval \<times> string) option" where
  "literal word v s =
     (if take (length word) s = word then Some (v, drop (length word) s) else None)"

fun parse_value :: "nat \<Rightarrow> string \<Rightarrow> (jsval \<times> string) option"
  and parse_elements :: "nat \<Rightarrow> string \<Rightarrow> (jsval list \<times> string) option"
  and parse_members :: "nat \<Rightarrow> string \<Rightarrow> ((string \<times> jsval) list \<times> string) option"
where
  "parse_value 0 s = None"
| "parse_value (Suc n) s =
     (case skip_ws s of
        [] \<Rightarrow> None
      | c # cs \<Rightarrow>
          if c = CHR ''n'' then literal ''null'' JNull (c # cs)
          else if c = CHR ''t'' then literal ''true'' (JBool True) (c # cs)
          else if c = CHR ''f'' then literal ''false'' (JBool False) (c # cs)
          else if c = CHR 0x22 then
            (case parse_string_body cs of None \<Rightarrow> None | Some (str, r) \<Rightarrow> Some (JStr str, r))
          else if c = CHR ''['' then
            (if skip_ws cs \<noteq> [] \<and> hd (skip_ws cs) = CHR '']''
             then Some (JArr [], tl (skip_ws cs))
             else (case parse_elements n cs of
                     None \<Rightarrow> None
                   | Some (xs, r) \<Rightarrow> Some (JArr xs, r)))
          else if c = CHR ''{'' then
            (if skip_ws cs \<noteq> [] \<and> hd (skip_ws cs) = CHR ''}''
             then Some (JObj [], tl (skip_ws cs))
             else (case parse_members n cs of
                     None \<Rightarrow> None
                   | Some (kvs, r) \<Rightarrow>
                       Some (JObj (fold (\<lambda>kv. AList.update (fst kv) (snd kv)) kvs []), r)))
          else parse_number (c # cs))"
| "parse_elements 0 s = None"
| "parse_elements (Suc n) s =
     (case parse_value n s of
        None \<Rightarrow> None
      | Some (v, r) \<Rightarrow>
          (case skip_ws r of
             [] \<Rightarrow> None
           | c # r' \<Rightarrow>
               if c = CHR '','' then cons_fst v (parse_elements n r')
               else if c = CHR '']'' then Some ([v], r')
               else None))"
| "parse_members 0 s = None"
| "parse_members (Suc n) s =
     (case skip_ws s of
        [] \<Rightarrow> None
      | q # cs \<Rightarrow>
          if q \<noteq> CHR 0x22 then None
          else (case parse_string_body cs of
                  None \<Rightarrow> None
                | Some (k, r) \<Rightarrow>
                    (case skip_ws r of
                       [] \<Rightarrow> None
                     | colon # r1 \<Rightarrow>
                         if colon \<noteq> CHR '':'' then None
                         else (case parse_value n r1 of
                                 None \<Rightarrow> None
                               | Some (v, r2) \<Rightarrow>
                                   (case skip_ws r2 of
                                      [] \<Rightarrow> None
                                    | c # r3 \<Rightarrow>
                                        if c = CHR '','' then cons_fst (k, v) (parse_members n r3)
                                        else if c = CHR ''}'' then Some ([(k, v)], r3)
                                        else None)))))"

definition JSON_parse :: "string \<Rightarrow> err + jsval" where
  "JSON_parse s =
     (case parse_value (Suc (length s)) s of
        None \<Rightarrow> Inl SyntaxError
      | Some (v, r) \<Rightarrow> if skip_ws r = [] then Inr v else Inl SyntaxError)"

subsection \<open>Values that JSON text represents\<close>

text \<open>
  \<open>json_safe v\<close>: \<open>v\<close> is built from null, booleans, integral numbers that a JavaScript
  number holds exactly, strings, arrays and objects with pairwise distinct keys. For
  these values \<open>text_of v\<close> is the text \<open>JSON.stringify\<close> writes.
\<close>

fun json_safe :: "jsval \<Rightarrow> bool" where
  "json_safe JUndefined = False"
| "json_safe JNull = True"
| "json_safe (JBool b) = True"
| "json_safe (JNum n) = (\<bar>n\<bar> \<le> 2 ^ 53)"
| "json_safe (JStr s) = True"
| "json_safe (JArr xs) = (\<forall>x \<in> set xs. json_safe x)"
| "json_safe (JObj kvs) = (distinct (map fst kvs) \<and> (\<forall>kv \<in> set kvs. json_safe (snd kv)))"
| "json_safe (JPromise v) = False"

definition text_of :: "jsval \<Rightarrow> string" where
  "text_of v = (case JSON_stringify v of None \<Rightarrow> ''null'' | Some s \<Rightarrow> s)"

definition member_text :: "string \<times> jsval \<Rightarrow> string" where
  "member_text kv = QuoteJSONString (fst kv) @ '':'' @ text_of (snd kv)"


text \<open>What may follow a value inside JSON text, and how a value may start.\<close>

definition follows :: "string \<Rightarrow> bool" where
  "follows rest = (rest = [] \<or> hd rest = CHR '','' \<or> hd rest = CHR '']'' \<or> hd rest = CHR ''}'')"

definition value_start :: "char \<Rightarrow> bool" where
  "value_start c = (\<not> is_ws c \<and> c \<noteq> CHR '']'' \<and> c \<noteq> CHR ''}'')"

section \<open>The key-value store and its client\<close>

text \<open>
  The store is an external collaborator. Its state is the list of its keys with their
  values (strings) and expiry deadlines (absolute time in milliseconds); an entry whose
  deadline has passed is gone. \<open>exec\<close> is the effect and the reply of one command at the
  time it is carried out. Replies arrive as JavaScript values: a string or null for GET,
  a number for INCR, DECR, DEL and EXPIRE, an array of strings for KEYS, a status string
  otherwise. The pattern matcher of KEYS is a parameter.
\<close>

record entry =
  val :: string
  expires :: "nat option"

type_synonym store = "(string \<times> entry) list"

definition live :: "nat \<Rightarrow> entry \<Rightarrow> bool" where
  "live t e = (case expires e of None \<Rightarrow> True | Some d \<Rightarrow> t < d)"

definition purge :: "nat \<Rightarrow> store \<Rightarrow> store" where
  "purge t db = filter (\<lambda>ke. live t (snd ke)) db"

text \<open>The value of a key at time \<open>t\<close>, and its entry.\<close>

definition lookup :: "nat \<Rightarrow> store \<Rightarrow> string \<Rightarrow> entry option" where
  "lookup t db k = map_of (purge t db) k"

datatype command =
    GET string
  | SETEX string int string
  | SET string string
  | DEL "string list"
  | KEYS string
  | INCR string
  | DECR string
  | EXPIRE string int
  | FLUSHDB
  | PING

text \<open>A counter value is the canonical decimal text of a signed 64-bit integer.\<close>

definition read_int :: "string \<Rightarrow> int option" where
  "read_int s =
     (let i = (if s \<noteq> [] \<and> hd s = CHR ''-'' then - int (read_nat (tl s)) else int (read_nat s))
      in if show_int i = s \<and> - (2 ^ 63) \<le> i \<and> i < 2 ^ 63 then Some i else None)"

definition incr_by :: "int \<Rightarrow> nat \<Rightarrow> string \<Rightarrow> store \<Rightarrow> (err + jsval) \<times> store" where
  "incr_by d t k db =
     (let db' = purge t db
      in case map_of db' k of
           None \<Rightarrow> (Inr (JNum d), AList.update k \<lparr>val = show_int d, expires = None\<rparr> db')
         | Some e \<Rightarrow>
             (case read_int (val e) of
                None \<Rightarrow> (Inl ReplyError, db')
              | Some n \<Rightarrow>
                  if n + d < - (2 ^ 63) \<or> 2 ^ 63 \<le> n + d then (Inl ReplyError, db')
                  else (Inr (JNum (n + d)), AList.update k (e\<lparr>val := show_int (n + d)\<rparr>) db')))"

fun exec :: "(string \<Rightarrow> string \<Rightarrow> bool) \<Rightarrow> nat \<Rightarrow> command \<Rightarrow> store \<Rightarrow> (err + jsval) \<times> store" where
  "exec m t (GET k) db =
     (Inr (case lookup t db k of None \<Rightarrow> JNull | Some e \<Rightarrow> JStr (val e)), db)"
| "exec m t (SETEX k ttl v) db =
     (if ttl \<le> 0 then (Inl ReplyError, db)
      else (Inr (JStr ''OK''),
            AList.update k \<lparr>val = v, expires = Some (t + nat ttl * 1000)\<rparr> (purge t db)))"
| "exec m t (SET k v) db =
     (Inr (JStr ''OK''), AList.update k \<lparr>val = v, expires = None\<rparr> (purge t db))"
| "exec m t (DEL ks) db =
     (Inr (JNum (int (length (filter (\<lambda>k. lookup t db k \<noteq> None) (remdups ks))))),
      filter (\<lambda>ke. fst ke \<notin> set ks) (purge t db))"
| "exec m t (KEYS p) db = (Inr (JArr (map JStr (filter (m p) (map fst (purge t db))))), db)"
| "exec m t (INCR k) db = incr_by 1 t k db"
| "exec m t (DECR k) db = incr_by (- 1) t k db"
| "exec m t (EXPIRE k secs) db =
     (case lookup t db k of
        None \<Rightarrow> (Inr (JNum 0), purge t db)
      | Some e \<Rightarrow>
          if secs \<le> 0 then (Inr (JNum 1), AList.delete k (purge t db))
          else (Inr (JNum 1),
                AList.update k (e\<lparr>expires := Some (t + nat secs * 1000)\<rparr>) (purge t db)))"
| "exec m t FLUSHDB db = (Inr (JStr ''OK''), [])"
| "exec m t PING db = (Inr (JStr ''PONG''), db)"

text \<open>
  The client (the node-redis client that \<open>redis.createClient\<close> builds, with the methods
  \<open>setEx\<close> and \<open>flushDb\<close> and the property \<open>isOpen\<close> that the code uses) takes a key
  or a value as a string. Any other argument, a promise or \<open>undefined\<close> among them, makes
  the call fail with a TypeError and nothing is sent. The value of \<open>set\<close> may also be a
  number, which is written in decimal. \<open>del\<close> takes one key or an array of keys.
\<close>

definition string_arg :: "jsval \<Rightarrow> err + string" where
  "string_arg v = (case v of JStr s \<Rightarrow> Inr s | _ \<Rightarrow> Inl TypeError)"

fun string_args :: "jsval list \<Rightarrow> err + string list" where
  "string_args [] = Inr []"
| "string_args (v # vs) =
     (case string_arg v of
        Inl e \<Rightarrow> Inl e
      | Inr k \<Rightarrow> (case string_args vs of Inl e \<Rightarrow> Inl e | Inr ks \<Rightarrow> Inr (k # ks)))"

definition del_args :: "jsval \<Rightarrow> err + string list" where
  "del_args v =
     (case v of
        JArr xs \<Rightarrow> string_args xs
      | _ \<Rightarrow> (case string_arg v of Inl e \<Rightarrow> Inl e | Inr k \<Rightarrow> Inr [k]))"

definition set_value_arg :: "jsval \<Rightarrow> err + string" where
  "set_value_arg v =
     (case v of JStr s \<Rightarrow> Inr s | JNum n \<Rightarrow> Inr (show_int n) | _ \<Rightarrow> Inl TypeError)"

section \<open>Promises, time and asynchronous functions\<close>

text \<open>
  Time is in milliseconds. A promise either settles at some time, fulfilled or rejected,
  or stays pending forever. How the store answers a command is part of the world: after
  a delay with the reply of \<open>exec\<close>, after a delay with an error, or never.

  The world holds what the code reads and writes: the fields \<open>this.client\<close> and
  \<open>this.initialized\<close> of the cache service, the client that \<open>getRedisClient()\<close> returns
  (null when there is none), and the store. Of a client object the code reads the property
  \<open>isOpen\<close> only.

  An asynchronous function is a function of the time of the call and the world; it returns
  its completion (return value or exception), the time of completion and the new world,
  or \<open>None\<close> when it never completes.
\<close>

datatype 'a promise = Settles nat "err + 'a" | Pending

datatype reply_mode = Replies nat | Errors nat | Silent

record handle =
  isOpen :: bool

record world =
  this_client :: "handle option"
  initialized :: bool
  redisClient :: "handle option"
  db :: store
  mode :: "command \<Rightarrow> reply_mode"
  matches :: "string \<Rightarrow> string \<Rightarrow> bool"

type_synonym 'a act = "nat \<Rightarrow> world \<Rightarrow> ((err + 'a) \<times> nat \<times> world) option"

definition ret :: "'a \<Rightarrow> 'a act" where
  "ret v = (\<lambda>t w. Some (Inr v, t, w))"

definition raise :: "err \<Rightarrow> 'a act" where
  "raise e = (\<lambda>t w. Some (Inl e, t, w))"

definition bnd :: "'a act \<Rightarrow> ('a \<Rightarrow> 'b act) \<Rightarrow> 'b act" where
  "bnd m f =
     (\<lambda>t w. case m t w of
        None \<Rightarrow> None
      | Some (Inl e, t', w') \<Rightarrow> Some (Inl e, t', w')
      | Some (Inr v, t', w') \<Rightarrow> f v t' w')"

definition try_catch :: "'a act \<Rightarrow> (err \<Rightarrow> 'a act) \<Rightarrow> 'a act" where
  "try_catch m h =
     (\<lambda>t w. case m t w of
        None \<Rightarrow> None
      | Some (Inl e, t', w') \<Rightarrow> h e t' w'
      | Some (Inr v, t', w') \<Rightarrow> Some (Inr v, t', w'))"

definition Date_now :: "nat act" where
  "Date_now = (\<lambda>t w. Some (Inr t, t, w))"

text \<open>\<open>await p\<close>: resumes when \<open>p\<close> has settled, never before the current time.\<close>

definition await :: "'a promise \<Rightarrow> 'a act" where
  "await p =
     (\<lambda>t w. case p of Pending \<Rightarrow> None | Settles t' r \<Rightarrow> Some (r, max t t', w))"

text \<open>\<open>client.<command>(...)\<close>: issues the command and returns the promise of its reply.\<close>

definition send :: "command \<Rightarrow> jsval promise act" where
  "send cmd =
     (\<lambda>t w. case mode w cmd of
        Silent \<Rightarrow> Some (Inr Pending, t, w)
      | Errors d \<Rightarrow> Some (Inr (Settles (t + d) (Inl ConnectionError)), t, w)
      | Replies d \<Rightarrow>
          (case exec (matches w) (t + d) cmd (db w) of
             (r, db') \<Rightarrow> Some (Inr (Settles (t + d) r), t, w\<lparr>db := db'\<rparr>)))"

text \<open>\<open>await client.<command>(...)\<close>: issues the command and waits for its reply.\<close>

definition call :: "command \<Rightarrow> jsval act" where
  "call cmd = bnd (send cmd) await"

text \<open>A call with an argument the client refuses throws; otherwise it goes ahead.\<close>

definition with_arg :: "err + 'a \<Rightarrow> ('a \<Rightarrow> 'b act) \<Rightarrow> 'b act" where
  "with_arg a f = (case a of Inl e \<Rightarrow> raise e | Inr x \<Rightarrow> f x)"

text \<open>
  \<open>new Promise((_, reject) => setTimeout(() => reject(new Error(...)), ms))\<close>

  The model follows such a promise only into the race it enters. When the function leaves
  before the race (an exception of the awaited call), the promise still rejects when the
  timer fires, with no handler attached; what the process does with that rejection is not
  part of what the function returns and is not modelled.
\<close>

definition timeout_promise :: "nat \<Rightarrow> jsval promise act" where
  "timeout_promise ms = (\<lambda>t w. Some (Inr (Settles (t + ms) (Inl TimeoutError)), t, w))"

text \<open>
  \<open>Promise.race([p, q])\<close> called at time \<open>t\<close>: the reaction of a promise that has settled
  by then is queued at \<open>t\<close>, in the order of the array, so the first one listed wins
  among those; otherwise the one that settles first wins.
\<close>

definition race_at :: "nat \<Rightarrow> 'a promise \<Rightarrow> 'a promise \<Rightarrow> 'a promise" where
  "race_at t p q =
     (case p of
        Pending \<Rightarrow> (case q of Pending \<Rightarrow> Pending | Settles tq rq \<Rightarrow> Settles (max t tq) rq)
      | Settles tp rp \<Rightarrow>
          (case q of
             Pending \<Rightarrow> Settles (max t tp) rp
           | Settles tq rq \<Rightarrow>
               if max t tp \<le> max t tq then Settles (max t tp) rp else Settles (max t tq) rq))"

definition Promise_race :: "'a promise \<Rightarrow> 'a promise \<Rightarrow> 'a promise act" where
  "Promise_race p q = (\<lambda>t w. Some (Inr (race_at t p q), t, w))"

text \<open>
  \<open>Promise.race([v, q])\<close> where \<open>v\<close> is not a promise but a value: it enters the race as
  \<open>Promise.resolve(v)\<close>, fulfilled at the time of the call.
\<close>

definition Promise_race_value :: "'a \<Rightarrow> 'a promise \<Rightarrow> 'a promise act" where
  "Promise_race_value v q = (\<lambda>t w. Some (Inr (race_at t (Settles t (Inr v)) q), t, w))"

section \<open>Cache service\<close>

text \<open>
  \<^verbatim>\<open>
  isAvailable() { return this.client && this.client.isOpen && this.initialized; }

  async getClient() {
    if (!this.client || !this.client.isOpen) { this.client = await getRedisClient(); }
    return this.client;
  }
  \<close>
\<close>

definition CACHE_EXPIRY :: int where
  "CACHE_EXPIRY = 3600"

definition isAvailable :: "world \<Rightarrow> bool" where
  "isAvailable w = (case this_client w of None \<Rightarrow> False | Some c \<Rightarrow> isOpen c \<and> initialized w)"

definition getClient :: "handle option act" where
  "getClient =
     (\<lambda>t w. if (case this_client w of None \<Rightarrow> True | Some c \<Rightarrow> \<not> isOpen c)
            then Some (Inr (redisClient w), t, w\<lparr>this_client := redisClient w\<rparr>)
            else Some (Inr (this_client w), t, w))"

text \<open>
  \<^verbatim>\<open>
  async get(key) {
    if (!this.isAvailable()) { return null; }
    try {
      const client = await this.getClient();
      if (!client) { return null; }
      const timeoutPromise = new Promise((_, reject) => {
        setTimeout(() => reject(new Error('Redis operation timeout')), 5000);
      });
      const getPromise = await client.get(key);
      const data = await Promise.race([getPromise, timeoutPromise]);
      if (data) { return JSON.parse(data); }
      return null;
    } catch (error) { return null; }
  }
  \<close>
  \<open>getPromise\<close> is the awaited reply, not the promise of the reply.
\<close>

definition CacheService_get :: "jsval \<Rightarrow> jsval act" where
  "CacheService_get key =
     (\<lambda>t w.
        if \<not> isAvailable w then ret JNull t w
        else try_catch
          (bnd getClient (\<lambda>client.
             if client = None then ret JNull
             else
               bnd (timeout_promise 5000) (\<lambda>timeoutPromise.
               bnd (with_arg (string_arg key) (\<lambda>k. call (GET k))) (\<lambda>getPromise.
               bnd (Promise_race_value getPromise timeoutPromise) (\<lambda>raced.
               bnd (await raced) (\<lambda>data.
                 if truthy data
                 then (case JSON_parse (ToString data) of Inl e \<Rightarrow> raise e | Inr v \<Rightarrow> ret v)
                 else ret JNull))))))
          (\<lambda>error. ret JNull) t w)"

text \<open>
  \<^verbatim>\<open>
  async set(key, data, expiry = this.CACHE_EXPIRY) {
    if (!this.isAvailable()) { return false; }
    try {
      const client = await this.getClient();
      if (!client) { return false; }
      const timeoutPromise = new Promise((_, reject) => {
        setTimeout(() => reject(new Error('Redis operation timeout')), 5000);
      });
      const setPromise = await client.setEx(key, expiry, JSON.stringify(data));
      await Promise.race([setPromise, timeoutPromise]);
      return true;
    } catch (error) { return false; }
  }
  \<close>
\<close>

text \<open>The value of the expression \<open>JSON.stringify(data)\<close>: a string or undefined.\<close>

definition stringified :: "jsval \<Rightarrow> jsval" where
  "stringified v = (case JSON_stringify v of None \<Rightarrow> JUndefined | Some s \<Rightarrow> JStr s)"

definition CacheService_set :: "jsval \<Rightarrow> jsval \<Rightarrow> int \<Rightarrow> bool act" where
  "CacheService_set key data expiry =
     (\<lambda>t w.
        if \<not> isAvailable w then ret False t w
        else try_catch
          (bnd getClient (\<lambda>client.
             if client = None then ret False
             else
               bnd (timeout_promise 5000) (\<lambda>timeoutPromise.
               bnd (with_arg (string_arg key) (\<lambda>k.
                    with_arg (string_arg (stringified data)) (\<lambda>payload.
                    call (SETEX k expiry payload)))) (\<lambda>setPromise.
               bnd (Promise_race_value setPromise timeoutPromise) (\<lambda>raced.
               bnd (await raced) (\<lambda>settled. ret True))))))
          (\<lambda>error. ret False) t w)"

text \<open>
  \<open>result > 0\<close> and \<open>current < 0\<close> compare the numeric reply of DEL and DECR with zero.
\<close>

definition js_gt0 :: "jsval \<Rightarrow> bool" where
  "js_gt0 v = (case v of JNum x \<Rightarrow> 0 < x | _ \<Rightarrow> False)"

definition js_lt0 :: "jsval \<Rightarrow> bool" where
  "js_lt0 v = (case v of JNum x \<Rightarrow> x < 0 | _ \<Rightarrow> False)"

text \<open>
  \<^verbatim>\<open>
  async delete(key) {
    if (!this.isAvailable()) { return false; }
    try {
      const client = await this.getClient();
      if (!client) { return false; }
      const timeoutPromise = new Promise((_, reject) => {
        setTimeout(() => reject(new Error('Redis operation timeout')), 5000);
      });
      const deletePromise = await client.del(key);
      const result = await Promise.race([deletePromise, timeoutPromise]);
      return result > 0;
    } catch (error) { return false; }
  }
  \<close>
\<close>

definition CacheService_delete :: "jsval \<Rightarrow> bool act" where
  "CacheService_delete key =
     (\<lambda>t w.
        if \<not> isAvailable w then ret False t w
        else try_catch
          (bnd getClient (\<lambda>client.
             if client = None then ret False
             else
               bnd (timeout_promise 5000) (\<lambda>timeoutPromise.
               bnd (with_arg (del_args key) (\<lambda>ks. call (DEL ks))) (\<lambda>deletePromise.
               bnd (Promise_race_value deletePromise timeoutPromise) (\<lambda>raced.
               bnd (await raced) (\<lambda>result. ret (js_gt0 result)))))))
          (\<lambda>error. ret False) t w)"

text \<open>
  \<^verbatim>\<open>
  async invalidatePattern(pattern) {
    if (!this.isAvailable()) { return false; }
    try {
      const client = await this.getClient();
      if (!client) { return false; }
      const timeoutPromise = new Promise((_, reject) => {
        setTimeout(() => reject(new Error('Redis operation timeout')), 10000);
      });
      const keysPromise = await client.keys(pattern);
      const keys = await Promise.race([keysPromise, timeoutPromise]);
      if (keys.length > 0) {
        const deletePromise = await client.del(keys);
        await Promise.race([deletePromise, timeoutPromise]);
      }
      return true;
    } catch (error) { return false; }
  }
  \<close>
  \<open>keys.length > 0\<close>: reading \<open>length\<close> of null or undefined throws; a value without a
  \<open>length\<close> compares as false.
\<close>

definition length_gt0 :: "jsval \<Rightarrow> bool act" where
  "length_gt0 v =
     (case v of
        JArr xs \<Rightarrow> ret (0 < length xs)
      | JStr s \<Rightarrow> ret (0 < length s)
      | JUndefined \<Rightarrow> raise TypeError
      | JNull \<Rightarrow> raise TypeError
      | _ \<Rightarrow> ret False)"

definition CacheService_invalidatePattern :: "string \<Rightarrow> bool act" where
  "CacheService_invalidatePattern pattern =
     (\<lambda>t w.
        if \<not> isAvailable w then ret False t w
        else try_catch
          (bnd getClient (\<lambda>client.
             if client = None then ret False
             else
               bnd (timeout_promise 10000) (\<lambda>timeoutPromise.
               bnd (call (KEYS pattern)) (\<lambda>keysPromise.
               bnd (Promise_race_value keysPromise timeoutPromise) (\<lambda>raced.
               bnd (await raced) (\<lambda>keys.
               bnd (length_gt0 keys) (\<lambda>nonempty.
               bnd (if nonempty
                    then bnd (with_arg (del_args keys) (\<lambda>ks. call (DEL ks))) (\<lambda>deletePromise.
                         bnd (Promise_race_value deletePromise timeoutPromise) (\<lambda>raced2.
                         bnd (await raced2) (\<lambda>settled. ret ())))
                    else ret ()) (\<lambda>u.
               ret True))))))))
          (\<lambda>error. ret False) t w)"

definition CacheService_invalidateChapterCache :: "bool act" where
  "CacheService_invalidateChapterCache = CacheService_invalidatePattern ''/api/v1/chapters*''"

text \<open>
  \<^verbatim>\<open>
  async clearAll() {
    if (!this.isAvailable()) { return false; }
    try {
      const client = await this.getClient();
      if (!client) { return false; }
      const timeoutPromise = new Promise((_, reject) => {
        setTimeout(() => reject(new Error('Redis operation timeout')), 10000);
      });
      const flushPromise = await client.flushDb();
      await Promise.race([flushPromise, timeoutPromise]);
      return true;
    } catch (error) { return false; }
  }
  \<close>
\<close>

definition CacheService_clearAll :: "bool act" where
  "CacheService_clearAll =
     (\<lambda>t w.
        if \<not> isAvailable w then ret False t w
        else try_catch
          (bnd getClient (\<lambda>client.
             if client = None then ret False
             else
               bnd (timeout_promise 10000) (\<lambda>timeoutPromise.
               bnd (call FLUSHDB) (\<lambda>flushPromise.
               bnd (Promise_race_value flushPromise timeoutPromise) (\<lambda>raced.
               bnd (await raced) (\<lambda>settled. ret True))))))
          (\<lambda>error. ret False) t w)"

text \<open>
  \<^verbatim>\<open>
  async healthCheck() {
    if (!this.initialized) { return { status: 'not_initialized', connected: false }; }
    const client = await this.getClient();
    if (!client || !client.isOpen) { return { status: 'unavailable', connected: false }; }
    try {
      const timeoutPromise = new Promise((_, reject) => {
        setTimeout(() => reject(new Error('Ping timeout')), 3000);
      });
      const pingPromise = client.ping();
      const pong = await Promise.race([pingPromise, timeoutPromise]);
      return { status: 'healthy', connected: true, response: pong, clientOpen: client.isOpen };
    } catch (error) {
      return { status: 'error', connected: false, error: error.message };
    }
  }
  \<close>
  Here the promise of the reply itself enters the race.
\<close>

datatype health = NotInitialized | Unavailable | Healthy jsval bool | HealthError err

definition CacheService_healthCheck :: "health act" where
  "CacheService_healthCheck =
     (\<lambda>t w.
        if \<not> initialized w then ret NotInitialized t w
        else bnd getClient (\<lambda>client.
          case client of
            None \<Rightarrow> ret Unavailable
          | Some c \<Rightarrow>
              if \<not> isOpen c then ret Unavailable
              else try_catch
                (bnd (timeout_promise 3000) (\<lambda>timeoutPromise.
                 bnd (send PING) (\<lambda>pingPromise.
                 bnd (Promise_race pingPromise timeoutPromise) (\<lambda>raced.
                 bnd (await raced) (\<lambda>pong. ret (Healthy pong (isOpen c)))))))
                (\<lambda>error. ret (HealthError error))) t w)"

section \<open>The chapter listing handler: its cache key\<close>

text \<open>
  \<^verbatim>\<open>
  const cacheKey = cacheService.generateCacheKey('/api/v1/chapters', validatedQuery);
  const cachedData = await cacheService.get(cacheKey);
  ...
  await cacheService.set(cacheKey, responseData);
  \<close>
  The call of \<open>generateCacheKey\<close> is not awaited.
\<close>

definition getChapters_cacheKey :: "query \<Rightarrow> jsval" where
  "getChapters_cacheKey validatedQuery = generateCacheKey ''/api/v1/chapters'' validatedQuery"

definition getChapters_lookup :: "query \<Rightarrow> jsval act" where
  "getChapters_lookup validatedQuery = CacheService_get (getChapters_cacheKey validatedQuery)"

definition getChapters_store :: "query \<Rightarrow> jsval \<Rightarrow> bool act" where
  "getChapters_store validatedQuery responseData =
     CacheService_set (getChapters_cacheKey validatedQuery) responseData CACHE_EXPIRY"

section \<open>Rate limiter store\<close>

text \<open>
  \<^verbatim>\<open>
  class RedisStore {
    constructor() { this.prefix = 'rl:'; }
    getClient() { try { return getRedisClient(); } catch (error) { return null; } }
    async incr(key) {
      const client = this.getClient();
      if (!client || !client.isOpen) {
        return { totalHits: 1, resetTime: new Date(Date.now() + 60000) };
      }
      const redisKey = this.prefix + key;
      try {
        const current = await client.incr(redisKey);
        if (current === 1) { await client.expire(redisKey, 60); }
        return { totalHits: current, resetTime: new Date(Date.now() + 60000) };
      } catch (error) {
        return { totalHits: 1, resetTime: new Date(Date.now() + 60000) };
      }
    }
    async decrement(key) {
      const client = this.getClient();
      if (!client || !client.isOpen) return;
      const redisKey = this.prefix + key;
      try {
        const current = await client.decr(redisKey);
        if (current < 0) { await client.set(redisKey, 0); }
      } catch (error) { }
    }
  }
  \<close>
  The key is the string the key generator returns (the client address or \<open>'unknown'\<close>).
\<close>

record hits =
  totalHits :: jsval
  resetTime :: nat

definition RedisStore_prefix :: string where
  "RedisStore_prefix = ''rl:''"

definition RedisStore_getClient :: "handle option act" where
  "RedisStore_getClient = (\<lambda>t w. Some (Inr (redisClient w), t, w))"

definition RedisStore_incr :: "string \<Rightarrow> hits act" where
  "RedisStore_incr key =
     bnd RedisStore_getClient (\<lambda>client.
       if (case client of None \<Rightarrow> True | Some c \<Rightarrow> \<not> isOpen c)
       then bnd Date_now (\<lambda>now. ret \<lparr>totalHits = JNum 1, resetTime = now + 60000\<rparr>)
       else
         let redisKey = RedisStore_prefix @ key
         in try_catch
              (bnd (call (INCR redisKey)) (\<lambda>current.
               bnd (if current = JNum 1
                    then bnd (call (EXPIRE redisKey 60)) (\<lambda>settled. ret ())
                    else ret ()) (\<lambda>u.
               bnd Date_now (\<lambda>now.
               ret \<lparr>totalHits = current, resetTime = now + 60000\<rparr>))))
              (\<lambda>error.
                 bnd Date_now (\<lambda>now. ret \<lparr>totalHits = JNum 1, resetTime = now + 60000\<rparr>)))"

definition RedisStore_decrement :: "string \<Rightarrow> unit act" where
  "RedisStore_decrement key =
     bnd RedisStore_getClient (\<lambda>client.
       if (case client of None \<Rightarrow> True | Some c \<Rightarrow> \<not> isOpen c) then ret ()
       else
         let redisKey = RedisStore_prefix @ key
         in try_catch
              (bnd (call (DECR redisKey)) (\<lambda>current.
                 if js_lt0 current
                 then bnd (with_arg (set_value_arg (JNum 0)) (\<lambda>zero. call (SET redisKey zero)))
                        (\<lambda>settled. ret ())
                 else ret ()))
              (\<lambda>error. ret ()))"

text \<open>
  The store object that \<open>createRateLimiter\<close> hands to the rate limiting middleware, for a
  limiter configured with window length \<open>windowMs\<close>:
  \<^verbatim>\<open>
  incr: async (key) => {
    try { const result = await store.incr(key); return result; }
    catch (error) { return { totalHits: 1, resetTime: new Date(Date.now() + windowMs) }; }
  },
  decrement: async (key) => {
    try { await store.decrement(key); } catch (error) { }
  },
  \<close>
\<close>

definition createRateLimiter_incr :: "nat \<Rightarrow> string \<Rightarrow> hits act" where
  "createRateLimiter_incr windowMs key =
     try_catch (RedisStore_incr key)
       (\<lambda>error. bnd Date_now (\<lambda>now. ret \<lparr>totalHits = JNum 1, resetTime = now + windowMs\<rparr>))"

definition createRateLimiter_decrement :: "nat \<Rightarrow> string \<Rightarrow> unit act" where
  "createRateLimiter_decrement windowMs key =
     try_catch (RedisStore_decrement key) (\<lambda>error. ret ())"

text \<open>The counter of a key as the store holds it at time \<open>t\<close>: its value and its deadline.\<close>

definition counter :: "nat \<Rightarrow> world \<Rightarrow> string \<Rightarrow> entry option" where
  "counter t w key = lookup t (db w) (RedisStore_prefix @ key)"

text \<open>The number a counter holds, when it holds one.\<close>

definition counter_value :: "nat \<Rightarrow> world \<Rightarrow> string \<Rightarrow> int option" where
  "counter_value t w key =
     (case counter t w key of None \<Rightarrow> None | Some e \<Rightarrow> read_int (val e))"

text \<open>A pattern matcher for examples: \<open>*\<close> matches any run of characters, \<open>?\<close> any one.\<close>

fun glob_match :: "string \<Rightarrow> string \<Rightarrow> bool" where
  "glob_match [] s = (s = [])"
| "glob_match (p # ps) [] = (p = CHR ''*'' \<and> glob_match ps [])"
| "glob_match (p # ps) (c # cs) =
     (if p = CHR ''*'' then glob_match ps (c # cs) \<or> glob_match (p # ps) cs
      else (p = CHR ''?'' \<or> p = c) \<and> glob_match ps cs)"

text \<open>The keys that a scan for a pattern finds at time \<open>t\<close>.\<close>

definition matching_keys :: "string \<Rightarrow> nat \<Rightarrow> world \<Rightarrow> string list" where
  "matching_keys p t w = filter (matches w p) (map fst (purge t (db w)))"

section \<open>Example worlds\<close>

text \<open>
  \<open>w_up\<close>: the service is initialised, the client is open, the store is empty and answers
  every command after 2 ms. The others differ from it as their names say.
\<close>

definition w_up :: world where
  "w_up = \<lparr>this_client = Some \<lparr>isOpen = True\<rparr>, initialized = True,
           redisClient = Some \<lparr>isOpen = True\<rparr>, db = [],
           mode = (\<lambda>cmd. Replies 2), matches = glob_match\<rparr>"

definition w_down :: world where
  "w_down = w_up\<lparr>this_client := None, redisClient := None\<rparr>"

definition w_closed :: world where
  "w_closed = w_up\<lparr>this_client := Some \<lparr>isOpen = False\<rparr>,
                   redisClient := Some \<lparr>isOpen = False\<rparr>\<rparr>"

definition w_failing :: world where
  "w_failing = w_up\<lparr>mode := (\<lambda>cmd. Errors 3)\<rparr>"

definition w_slow :: world where
  "w_slow = w_up\<lparr>db := [(''k'', \<lparr>val = ''5'', expires = None\<rparr>)],
                 mode := (\<lambda>cmd. Replies 7000)\<rparr>"

definition w_hung :: world where
  "w_hung = w_up\<lparr>mode := (\<lambda>cmd. Silent)\<rparr>"

definition w_listing :: world where
  "w_listing = w_up\<lparr>db := [(''/api/v1/chapters?page=1'', \<lparr>val = ''{}'', expires = None\<rparr>),
                          (''rl:10.0.0.1'', \<lparr>val = ''3'', expires = Some 50000\<rparr>)]\<rparr>"

definition w_zero :: world where
  "w_zero = w_up\<lparr>db := [(''rl:10.0.0.1'', \<lparr>val = ''0'', expires = Some 50000\<rparr>)]\<rparr>"

definition w_set_fails :: world where
  "w_set_fails = w_zero\<lparr>mode := (\<lambda>cmd. case cmd of SET k v \<Rightarrow> Errors 3 | _ \<Rightarrow> Replies 2)\<rparr>"


definition listing_response :: jsval where
  "listing_response =
     JObj [(''success'', JBool True), (''count'', JNum 2),
           (''data'', JArr [JStr ''Optics'', JNull]), (''cached'', JBool False)]"

text \<open>
  \<open>w_cached\<close>: the store holds the listing response under the key string that
  \<open>generateCacheKey\<close> computes for the listing without query parameters.
\<close>

definition w_cached :: world where
  "w_cached = w_up\<lparr>db := [(''/api/v1/chapters'',
                            \<lparr>val = text_of listing_response, expires = None\<rparr>)]\<rparr>"

section \<open>Properties of the execution model\<close>

text \<open>
  One store round trip as the cache service writes it: the reply is awaited first and only
  its value enters the race, so the timer has no part in the outcome.
\<close>

lemma call_unfold:
  "call cmd t w =
   (case mode w cmd of
      Silent \<Rightarrow> None
    | Errors d \<Rightarrow> Some (Inl ConnectionError, t + d, w)
    | Replies d \<Rightarrow>
        (case exec (matches w) (t + d) cmd (db w) of
           (r, db') \<Rightarrow> Some (r, t + d, w\<lparr>db := db'\<rparr>)))"
  by (simp add: call_def bnd_def send_def await_def split: reply_mode.splits prod.splits)

lemma round_trip:
  "bnd (call cmd) (\<lambda>x.
     bnd (Promise_race_value x tp) (\<lambda>raced. bnd (await raced) f)) t w =
   (case mode w cmd of
      Silent \<Rightarrow> None
    | Errors d \<Rightarrow> Some (Inl ConnectionError, t + d, w)
    | Replies d \<Rightarrow>
        (case exec (matches w) (t + d) cmd (db w) of
           (Inl e, db') \<Rightarrow> Some (Inl e, t + d, w\<lparr>db := db'\<rparr>)
         | (Inr v, db') \<Rightarrow> f v (t + d) (w\<lparr>db := db'\<rparr>)))"
  by (simp add: bnd_def call_unfold await_def Promise_race_value_def race_at_def
      split: reply_mode.splits prod.splits sum.splits promise.splits)

lemma getClient_available:
  "isAvailable w \<Longrightarrow> getClient t w = Some (Inr (this_client w), t, w) \<and> this_client w \<noteq> None"
  by (auto simp: isAvailable_def getClient_def split: option.splits)

lemma guarded:
  "isAvailable w \<Longrightarrow>
   try_catch (bnd getClient (\<lambda>client. if client = None then ret dflt
                else bnd (timeout_promise ms) body)) h t w =
   try_catch (body (Settles (t + ms) (Inl TimeoutError))) h t w"
  by (simp add: try_catch_def bnd_def getClient_available timeout_promise_def)

lemma arg_simps:
  "string_arg (JStr s) = Inr s"
  "string_arg (JPromise v) = Inl TypeError"
  "string_arg JUndefined = Inl TypeError"
  "set_value_arg (JNum n) = Inr (show_int n)"
  "with_arg (Inr x) f = f x"
  "with_arg (Inl e) g = raise e"
  by (simp_all add: string_arg_def set_value_arg_def with_arg_def)

lemma get_unfold:
  assumes "isAvailable w"
  shows "CacheService_get (JStr k) t w =
    (case mode w (GET k) of
       Silent \<Rightarrow> None
     | Errors d \<Rightarrow> Some (Inr JNull, t + d, w)
     | Replies d \<Rightarrow>
         Some (Inr (case lookup (t + d) (db w) k of
                      None \<Rightarrow> JNull
                    | Some e \<Rightarrow> if val e = [] then JNull
                               else (case JSON_parse (val e) of Inl x \<Rightarrow> JNull | Inr v \<Rightarrow> v)),
               t + d, w))"
  using assms
  apply (simp add: CacheService_get_def guarded arg_simps)
  apply (simp add: try_catch_def round_trip)
  apply (simp add: ret_def raise_def split: reply_mode.splits option.splits sum.splits)
  done

text \<open>A key the client refuses: the lookup is a miss at once and nothing is sent.\<close>

lemma get_refused:
  assumes "string_arg key = Inl e"
  shows "CacheService_get key t w = Some (Inr JNull, t, w)"
proof (cases "isAvailable w")
  case True
  then show ?thesis
    by (simp add: CacheService_get_def guarded assms arg_simps)
       (simp add: try_catch_def bnd_def raise_def ret_def)
next
  case False
  then show ?thesis
    by (simp add: CacheService_get_def ret_def)
qed

lemma set_unfold:
  assumes "isAvailable w"
  shows "CacheService_set (JStr k) v expiry t w =
    (case JSON_stringify v of
       None \<Rightarrow> Some (Inr False, t, w)
     | Some s \<Rightarrow>
         (case mode w (SETEX k expiry s) of
            Silent \<Rightarrow> None
          | Errors d \<Rightarrow> Some (Inr False, t + d, w)
          | Replies d \<Rightarrow>
              if expiry \<le> 0 then Some (Inr False, t + d, w)
              else Some (Inr True, t + d,
                     w\<lparr>db := AList.update k
                               \<lparr>val = s, expires = Some (t + d + nat expiry * 1000)\<rparr>
                               (purge (t + d) (db w))\<rparr>)))"
proof (cases "JSON_stringify v")
  case None
  with assms show ?thesis
    by (simp add: CacheService_set_def guarded arg_simps stringified_def)
       (simp add: try_catch_def bnd_def raise_def ret_def)
next
  case (Some s)
  with assms show ?thesis
    apply (simp add: CacheService_set_def guarded arg_simps stringified_def)
    apply (simp add: try_catch_def round_trip)
    apply (simp add: ret_def split: reply_mode.splits)
    done
qed

text \<open>A key the client refuses: the write fails at once and nothing is sent.\<close>

lemma set_refused:
  assumes "string_arg key = Inl e"
  shows "CacheService_set key v expiry t w = Some (Inr False, t, w)"
proof (cases "isAvailable w")
  case True
  then show ?thesis
    by (simp add: CacheService_set_def guarded assms arg_simps)
       (simp add: try_catch_def bnd_def raise_def ret_def)
next
  case False
  then show ?thesis
    by (simp add: CacheService_set_def ret_def)
qed

lemma available_examples:
  "isAvailable w_up" "isAvailable w_slow" "isAvailable w_hung" "isAvailable w_failing"
  "isAvailable w_listing"
  by (simp_all add: isAvailable_def w_up_def w_slow_def w_hung_def w_failing_def w_listing_def)

lemma hung:
  "mode w_hung = (\<lambda>cmd. Silent)"
  by (simp add: w_hung_def)

lemma bnd_ret: "bnd (ret v) f = f v"
  by (simp add: bnd_def ret_def)

lemma del_args_keys: "del_args (JArr (map JStr ks)) = Inr ks"
  by (induction ks) (simp_all add: del_args_def string_arg_def)

lemma exec_KEYS:
  "exec (matches w) t (KEYS p) (db w) = (Inr (JArr (map JStr (matching_keys p t w))), db w)"
  by (simp add: matching_keys_def)

lemma exec_DEL:
  "exec m t (DEL ks) d =
     (Inr (JNum (int (length (filter (\<lambda>k. lookup t d k \<noteq> None) (remdups ks))))),
      filter (\<lambda>ke. fst ke \<notin> set ks) (purge t d))"
  by simp

text \<open>What \<open>invalidatePattern\<close> does once the scan has returned the keys \<open>ks\<close>.\<close>

lemma after_scan:
  "bnd (length_gt0 (JArr (map JStr ks))) (\<lambda>nonempty.
     bnd (if nonempty
          then bnd (with_arg (del_args (JArr (map JStr ks))) (\<lambda>ks. call (DEL ks))) (\<lambda>x.
               bnd (Promise_race_value x tp) (\<lambda>raced2.
               bnd (await raced2) (\<lambda>settled. ret ())))
          else ret ()) (\<lambda>u. ret True)) t w =
   (if ks = [] then Some (Inr True, t, w)
    else (case mode w (DEL ks) of
            Silent \<Rightarrow> None
          | Errors d \<Rightarrow> Some (Inl ConnectionError, t + d, w)
          | Replies d \<Rightarrow>
              Some (Inr True, t + d,
                    w\<lparr>db := filter (\<lambda>ke. fst ke \<notin> set ks) (purge (t + d) (db w))\<rparr>)))"
proof (cases "ks = []")
  case True
  then show ?thesis by (simp add: length_gt0_def bnd_ret) (simp add: ret_def)
next
  case False
  have "bnd (bnd (call (DEL ks)) (\<lambda>x.
           bnd (Promise_race_value x tp) (\<lambda>raced2. bnd (await raced2) (\<lambda>settled. ret ()))))
          (\<lambda>u. ret True) t w =
        (case mode w (DEL ks) of
            Silent \<Rightarrow> None
          | Errors d \<Rightarrow> Some (Inl ConnectionError, t + d, w)
          | Replies d \<Rightarrow>
              Some (Inr True, t + d,
                    w\<lparr>db := filter (\<lambda>ke. fst ke \<notin> set ks) (purge (t + d) (db w))\<rparr>))"
    unfolding bnd_def [of "bnd (call (DEL ks)) _"] round_trip exec_DEL
    by (simp add: ret_def split: reply_mode.splits)
  with False show ?thesis
    by (simp add: length_gt0_def bnd_ret del_args_keys arg_simps)
qed

lemma invalidatePattern_unfold:
  assumes "isAvailable w"
  shows "CacheService_invalidatePattern p t w =
    (case mode w (KEYS p) of
       Silent \<Rightarrow> None
     | Errors d \<Rightarrow> Some (Inr False, t + d, w)
     | Replies d \<Rightarrow>
         if matching_keys p (t + d) w = [] then Some (Inr True, t + d, w)
         else (case mode w (DEL (matching_keys p (t + d) w)) of
                 Silent \<Rightarrow> None
               | Errors d' \<Rightarrow> Some (Inr False, t + d + d', w)
               | Replies d' \<Rightarrow>
                   Some (Inr True, t + d + d',
                     w\<lparr>db := filter (\<lambda>ke. fst ke \<notin> set (matching_keys p (t + d) w))
                                (purge (t + d + d') (db w))\<rparr>)))"
proof -
  have "CacheService_invalidatePattern p t w =
        try_catch (\<lambda>t w.
          case mode w (KEYS p) of
            Silent \<Rightarrow> None
          | Errors d \<Rightarrow> Some (Inl ConnectionError, t + d, w)
          | Replies d \<Rightarrow>
              (if matching_keys p (t + d) w = [] then Some (Inr True, t + d, w)
               else (case mode w (DEL (matching_keys p (t + d) w)) of
                  Silent \<Rightarrow> None
                | Errors d' \<Rightarrow> Some (Inl ConnectionError, t + d + d', w)
                | Replies d' \<Rightarrow>
                    Some (Inr True, t + d + d',
                      w\<lparr>db := filter (\<lambda>ke. fst ke \<notin> set (matching_keys p (t + d) w))
                                 (purge (t + d + d') (db w))\<rparr>))))
          (\<lambda>error. ret False) t w"
    using assms
    apply (simp add: CacheService_invalidatePattern_def guarded)
    apply (simp add: try_catch_def round_trip exec_KEYS after_scan matching_keys_def [symmetric]
        split: reply_mode.splits)
    done
  then show ?thesis
    by (simp add: try_catch_def ret_def split: reply_mode.splits)
qed

lemma parse_5: "JSON_parse ''5'' = Inr (JNum 5)"
  by code_simp

section \<open>Decimal text of counters\<close>

lemma digit_cases: "d < 10 \<Longrightarrow> d = 0 \<or> d = 1 \<or> d = 2 \<or> d = 3 \<or> d = 4 \<or> d = 5 \<or> d = 6 \<or> d = 7 \<or> d = 8 \<or> d = (9::nat)"
  by arith

lemma digit_val_digit_char: "d < 10 \<Longrightarrow> digit_val (digit_char d) = d"
  using digit_cases [of d] by (auto simp: digit_val_def digit_char_def)

lemma digit_char_not_minus: "d < 10 \<Longrightarrow> digit_char d \<noteq> CHR ''-''"
  using digit_cases [of d] by (auto simp: digit_char_def)

lemma read_nat_snoc: "read_nat (xs @ [c]) = 10 * read_nat xs + digit_val c"
  by (simp add: read_nat_def)

lemma read_show_nat: "read_nat (show_nat n) = n"
proof (induction n rule: show_nat.induct)
  case (1 n)
  show ?case
  proof (cases "n < 10")
    case True
    then show ?thesis
      by (subst show_nat.simps) (simp add: read_nat_def digit_val_digit_char)
  next
    case False
    with 1 show ?thesis
      by (subst show_nat.simps) (simp add: read_nat_snoc digit_val_digit_char)
  qed
qed

lemma show_nat_head: "show_nat n \<noteq> [] \<and> hd (show_nat n) \<noteq> CHR ''-''"
proof (induction n rule: show_nat.induct)
  case (1 n)
  show ?case
  proof (cases "n < 10")
    case True
    then show ?thesis
      by (subst (1 2) show_nat.simps) (simp add: digit_char_not_minus)
  next
    case False
    with 1 show ?thesis
      by (subst (1 2) show_nat.simps) simp
  qed
qed

lemma read_int_show_int:
  assumes "- (2 ^ 63) \<le> i" "i < 2 ^ 63"
  shows "read_int (show_int i) = Some i"
proof (cases "i < 0")
  case True
  then have "show_int i = CHR ''-'' # show_nat (nat (- i))"
    by (simp add: show_int_def)
  with True assms show ?thesis
    by (simp add: read_int_def read_show_nat)
next
  case False
  then have s: "show_int i = show_nat (nat i)"
    by (simp add: show_int_def)
  with False assms show_nat_head [of "nat i"] show ?thesis
    by (simp add: read_int_def read_show_nat)
qed

lemma show_int_small: "show_int 0 = ''0''" "show_int 1 = ''1''" "show_int (- 1) = ''-1''"
  by (simp_all add: show_int_def show_nat.simps digit_char_def)

section \<open>Properties of the store and of the rate limiter store\<close>

lemma map_of_filter_first:
  "map_of xs k = Some e \<Longrightarrow> P (k, e) \<Longrightarrow> map_of (filter P xs) k = Some e"
  by (induction xs) (auto split: if_splits)

lemma lookup_update_same:
  "live t e \<Longrightarrow> lookup t (AList.update k e d) k = Some e"
  by (simp add: lookup_def purge_def map_of_filter_first update_conv)

lemma lookup_live: "lookup t d k = Some e \<Longrightarrow> live t e"
  by (auto simp: lookup_def purge_def dest!: map_of_SomeD)

lemma lookup_purge: "lookup t (purge t d) k = lookup t d k"
  by (simp add: lookup_def purge_def)

lemma live_no_deadline: "live t \<lparr>val = v, expires = None\<rparr>"
  by (simp add: live_def)

lemma handler_fail_open:
  "bnd Date_now (\<lambda>now. ret \<lparr>totalHits = h, resetTime = now + ms\<rparr>) t w
     = Some (Inr \<lparr>totalHits = h, resetTime = t + ms\<rparr>, t, w)"
  by (simp add: bnd_def Date_now_def ret_def)

lemma incr_closed:
  assumes "redisClient w = None \<or> (\<exists>c. redisClient w = Some c \<and> \<not> isOpen c)"
  shows "RedisStore_incr key t w = Some (Inr \<lparr>totalHits = JNum 1, resetTime = t + 60000\<rparr>, t, w)"
  using assms
  by (auto simp: RedisStore_incr_def RedisStore_getClient_def handler_fail_open
      bnd_def [of "\<lambda>t w. Some (Inr (redisClient w), t, w)"])

lemma incr_open:
  assumes "redisClient w = Some c" "isOpen c"
  shows "RedisStore_incr key t w =
     try_catch
       (bnd (call (INCR (RedisStore_prefix @ key))) (\<lambda>current.
        bnd (if current = JNum 1
             then bnd (call (EXPIRE (RedisStore_prefix @ key) 60)) (\<lambda>settled. ret ())
             else ret ()) (\<lambda>u.
        bnd Date_now (\<lambda>now.
        ret \<lparr>totalHits = current, resetTime = now + 60000\<rparr>))))
       (\<lambda>error. bnd Date_now (\<lambda>now. ret \<lparr>totalHits = JNum 1, resetTime = now + 60000\<rparr>)) t w"
  using assms
  by (simp add: RedisStore_incr_def RedisStore_getClient_def Let_def
      bnd_def [of "\<lambda>t w. Some (Inr (redisClient w), t, w)"])

lemma incr_store_error:
  assumes "redisClient w = Some c" "isOpen c"
    and "mode w (INCR (RedisStore_prefix @ key)) = Errors d"
  shows "RedisStore_incr key t w
         = Some (Inr \<lparr>totalHits = JNum 1, resetTime = t + d + 60000\<rparr>, t + d, w)"
  using assms
  by (simp add: incr_open try_catch_def bnd_def [of "call _"] call_unfold handler_fail_open)

lemma try_catch_total:
  assumes "\<And>e t w. \<exists>v. h e t w = Some (Inr v, t, w)"
  shows "try_catch m h t w = None \<or> (\<exists>v t' w'. try_catch m h t w = Some (Inr v, t', w'))"
proof (cases "m t w")
  case None
  then show ?thesis by (simp add: try_catch_def)
next
  case (Some r)
  obtain x t' w' where r: "r = (x, t', w')" by (cases r)
  show ?thesis
  proof (cases x)
    case (Inl e)
    with Some r assms [of e t' w'] show ?thesis by (auto simp: try_catch_def)
  next
    case (Inr v)
    with Some r show ?thesis by (simp add: try_catch_def)
  qed
qed

lemma incr_never_throws:
  "createRateLimiter_incr windowMs key t w = None
   \<or> (\<exists>h t' w'. createRateLimiter_incr windowMs key t w = Some (Inr h, t', w'))"
  unfolding createRateLimiter_incr_def
  by (rule try_catch_total) (simp add: handler_fail_open)

lemma wrapper_passes:
  "RedisStore_incr key t w = Some (Inr h, t', w')
   \<Longrightarrow> createRateLimiter_incr windowMs key t w = Some (Inr h, t', w')"
  by (simp add: createRateLimiter_incr_def try_catch_def)

lemma incr_by_absent:
  "lookup t d k = None \<Longrightarrow>
   incr_by n t k d = (Inr (JNum n), AList.update k \<lparr>val = show_int n, expires = None\<rparr> (purge t d))"
  by (simp add: incr_by_def lookup_def)

lemma incr_first_hit:
  assumes "redisClient w = Some c" "isOpen c"
    and "mode w (INCR (RedisStore_prefix @ key)) = Replies d1"
    and "mode w (EXPIRE (RedisStore_prefix @ key) 60) = Replies d2"
    and "counter (t + d1) w key = None"
  shows "\<exists>w'. createRateLimiter_incr windowMs key t w
           = Some (Inr \<lparr>totalHits = JNum 1, resetTime = t + d1 + d2 + 60000\<rparr>, t + d1 + d2, w')
         \<and> counter (t + d1 + d2) w' key = Some \<lparr>val = ''1'', expires = Some (t + d1 + d2 + 60000)\<rparr>"
proof -
  let ?rk = "RedisStore_prefix @ key"
  let ?e1 = "\<lparr>val = ''1'', expires = None\<rparr>"
  let ?d1 = "AList.update ?rk ?e1 (purge (t + d1) (db w))"
  let ?e2 = "\<lparr>val = ''1'', expires = Some (t + d1 + d2 + 60000)\<rparr>"
  let ?d2 = "AList.update ?rk ?e2 (purge (t + d1 + d2) ?d1)"
  have absent: "lookup (t + d1) (db w) ?rk = None"
    using assms(5) by (simp add: counter_def)
  have s1: "call (INCR ?rk) t w = Some (Inr (JNum 1), t + d1, w\<lparr>db := ?d1\<rparr>)"
    using assms(3) absent by (simp add: call_unfold incr_by_absent show_int_small)
  have found: "lookup (t + d1 + d2) ?d1 ?rk = Some ?e1"
    by (rule lookup_update_same) (simp add: live_def)
  have s2: "call (EXPIRE ?rk 60) (t + d1) (w\<lparr>db := ?d1\<rparr>)
            = Some (Inr (JNum 1), t + d1 + d2, w\<lparr>db := ?d2\<rparr>)"
    using assms(4) found by (simp add: call_unfold)
  have "RedisStore_incr key t w
        = Some (Inr \<lparr>totalHits = JNum 1, resetTime = t + d1 + d2 + 60000\<rparr>, t + d1 + d2, w\<lparr>db := ?d2\<rparr>)"
    using assms(1,2) s1 s2
    by (simp add: incr_open try_catch_def bnd_def ret_def Date_now_def)
  moreover have "counter (t + d1 + d2) (w\<lparr>db := ?d2\<rparr>) key = Some ?e2"
    by (simp add: counter_def lookup_update_same live_def)
  ultimately show ?thesis
    by (auto intro: wrapper_passes)
qed

lemma decrement_open:
  assumes "redisClient w = Some c" "isOpen c"
  shows "RedisStore_decrement key t w =
     try_catch
       (bnd (call (DECR (RedisStore_prefix @ key))) (\<lambda>current.
          if js_lt0 current
          then bnd (call (SET (RedisStore_prefix @ key) ''0'')) (\<lambda>settled. ret ())
          else ret ()))
       (\<lambda>error. ret ()) t w"
proof -
  have z: "with_arg (set_value_arg (JNum 0)) (\<lambda>zero. call (SET (RedisStore_prefix @ key) zero))
           = call (SET (RedisStore_prefix @ key) ''0'')"
    by (simp add: arg_simps show_int_small)
  show ?thesis
    using assms
    by (simp add: RedisStore_decrement_def RedisStore_getClient_def Let_def z
        bnd_def [of "\<lambda>t w. Some (Inr (redisClient w), t, w)"] cong: if_cong)
qed

lemma read_int_range: "read_int s = Some n \<Longrightarrow> - (2 ^ 63) \<le> n \<and> n < 2 ^ 63"
  by (auto simp: read_int_def Let_def split: if_splits)

lemma incr_by_present:
  assumes "lookup t d k = Some e" "read_int (val e) = Some n"
    and "- (2 ^ 63) \<le> n + i" "n + i < 2 ^ 63"
  shows "incr_by i t k d = (Inr (JNum (n + i)), AList.update k (e\<lparr>val := show_int (n + i)\<rparr>) (purge t d))"
  using assms by (simp add: incr_by_def lookup_def)

text \<open>A decrement whose result is not negative: one command, the deadline stays.\<close>

lemma decrement_positive:
  assumes "redisClient w = Some c" "isOpen c"
    and "mode w (DECR (RedisStore_prefix @ key)) = Replies d1"
    and "counter (t + d1) w key = Some e" "read_int (val e) = Some n" "0 < n"
  shows "RedisStore_decrement key t w
         = Some (Inr (), t + d1,
                 w\<lparr>db := AList.update (RedisStore_prefix @ key) (e\<lparr>val := show_int (n - 1)\<rparr>)
                           (purge (t + d1) (db w))\<rparr>)"
proof -
  let ?rk = "RedisStore_prefix @ key"
  have r: "- (2 ^ 63) \<le> n + (- 1)" "n + (- 1) < 2 ^ 63"
    using read_int_range [OF assms(5)] assms(6) by simp_all
  have "incr_by (- 1) (t + d1) ?rk (db w)
        = (Inr (JNum (n + (- 1))), AList.update ?rk (e\<lparr>val := show_int (n + (- 1))\<rparr>) (purge (t + d1) (db w)))"
    using assms(4,5) r by (intro incr_by_present) (simp_all add: counter_def)
  then have "call (DECR ?rk) t w
        = Some (Inr (JNum (n - 1)), t + d1,
                w\<lparr>db := AList.update ?rk (e\<lparr>val := show_int (n - 1)\<rparr>) (purge (t + d1) (db w))\<rparr>)"
    using assms(3) by (simp add: call_unfold)
  with assms(1,2,6) show ?thesis
    by (simp add: decrement_open try_catch_def bnd_def ret_def js_lt0_def)
qed

text \<open>A decrement whose result is negative: the counter is overwritten by a plain SET.\<close>

lemma decrement_negative:
  assumes "redisClient w = Some c" "isOpen c"
    and "mode w (DECR (RedisStore_prefix @ key)) = Replies d1"
    and "mode w (SET (RedisStore_prefix @ key) ''0'') = Replies d2"
    and "counter (t + d1) w key = None
         \<or> (\<exists>e n. counter (t + d1) w key = Some e \<and> read_int (val e) = Some n
                  \<and> n \<le> 0 \<and> - (2 ^ 63) < n)"
  shows "\<exists>d'. RedisStore_decrement key t w
         = Some (Inr (), t + d1 + d2,
                 w\<lparr>db := AList.update (RedisStore_prefix @ key) \<lparr>val = ''0'', expires = None\<rparr> d'\<rparr>)"
proof -
  let ?rk = "RedisStore_prefix @ key"
  have "\<exists>m d'. m < 0 \<and> incr_by (- 1) (t + d1) ?rk (db w) = (Inr (JNum m), d')"
    using assms(5)
  proof
    assume "counter (t + d1) w key = None"
    then show ?thesis
      by (simp add: counter_def incr_by_absent)
  next
    assume "\<exists>e n. counter (t + d1) w key = Some e \<and> read_int (val e) = Some n
                  \<and> n \<le> 0 \<and> - (2 ^ 63) < n"
    then obtain e n where e: "lookup (t + d1) (db w) ?rk = Some e" "read_int (val e) = Some n"
        and n: "n \<le> 0" "- (2 ^ 63) < n"
      by (auto simp: counter_def)
    have "incr_by (- 1) (t + d1) ?rk (db w)
          = (Inr (JNum (n + (- 1))), AList.update ?rk (e\<lparr>val := show_int (n + (- 1))\<rparr>) (purge (t + d1) (db w)))"
      using e n by (intro incr_by_present) simp_all
    with n show ?thesis by simp
  qed
  then obtain m d' where m: "m < 0"
      and i: "incr_by (- 1) (t + d1) ?rk (db w) = (Inr (JNum m), d')"
    by blast
  have s1: "call (DECR ?rk) t w = Some (Inr (JNum m), t + d1, w\<lparr>db := d'\<rparr>)"
    using assms(3) i by (simp add: call_unfold)
  have s2: "call (SET ?rk ''0'') (t + d1) (w\<lparr>db := d'\<rparr>)
            = Some (Inr (JStr ''OK''), t + d1 + d2,
                    w\<lparr>db := AList.update ?rk \<lparr>val = ''0'', expires = None\<rparr> (purge (t + d1 + d2) d')\<rparr>)"
    using assms(4) by (simp add: call_unfold)
  from assms(1,2) m s1 s2 have "RedisStore_decrement key t w
         = Some (Inr (), t + d1 + d2,
                 w\<lparr>db := AList.update ?rk \<lparr>val = ''0'', expires = None\<rparr>
                           (purge (t + d1 + d2) d')\<rparr>)"
    by (simp add: decrement_open try_catch_def bnd_def ret_def js_lt0_def)
  then show ?thesis by blast
qed

lemma read_int_0: "read_int ''0'' = Some 0"
  using read_int_show_int [of 0] by (simp add: show_int_small)

lemma read_int_minus_1: "read_int ''-1'' = Some (- 1)"
  using read_int_show_int [of "- 1"] by (simp add: show_int_small)

text \<open>The three ways the increment fails open, for every configured window.\<close>

lemma incr_fails_open:
  assumes "redisClient w = None \<or> (\<exists>c. redisClient w = Some c \<and> \<not> isOpen c)
           \<or> (\<exists>c. redisClient w = Some c \<and> isOpen c \<and> mode w (INCR (RedisStore_prefix @ key)) = Errors d)"
  shows "\<exists>t'. createRateLimiter_incr windowMs key t w
           = Some (Inr \<lparr>totalHits = JNum 1, resetTime = t' + 60000\<rparr>, t', w)"
  using assms incr_closed [of w key t] incr_store_error [of w _ key d t]
  by (auto intro!: wrapper_passes)

section \<open>Properties of the cache key\<close>

lemma join_empty_iff:
  assumes "\<forall>x \<in> set xs. x \<noteq> []"
  shows "join sep xs = [] \<longleftrightarrow> xs = []"
proof (cases xs)
  case Nil
  then show ?thesis by simp
next
  case (Cons x ys)
  with assms show ?thesis by (cases ys) simp_all
qed

lemma body_unfold:
  "generateCacheKey_body endpoint query =
     (if kept_keys query = [] then endpoint
      else endpoint @ ''?'' @ join ''&'' (map (pair_text query) (kept_keys query)))"
proof -
  have k: "filter (\<lambda>key. property query key \<noteq> JUndefined \<and> property query key \<noteq> JNull)
             (sort (Object_keys query)) = kept_keys query"
    by (simp add: kept_keys_def present_def [abs_def] filter_sort)
  have pt: "(\<lambda>key. key @ ''='' @ encodeURIComponent (property query key)) = pair_text query"
    by (simp add: pair_text_def fun_eq_iff)
  have j: "join ''&'' (map (pair_text query) (kept_keys query)) = [] \<longleftrightarrow> kept_keys query = []"
    using join_empty_iff [of "map (pair_text query) (kept_keys query)" "''&''"]
    by (simp add: pair_text_def)
  have e: "Object_keys query = [] \<Longrightarrow> kept_keys query = []"
    by (simp add: kept_keys_def)
  show ?thesis
    unfolding generateCacheKey_body_def k pt Let_def
    using j e by auto
qed

lemma same_mapping:
  assumes "distinct (Object_keys q1)" "distinct (Object_keys q2)" "map_of q1 = map_of q2"
  shows "kept_keys q1 = kept_keys q2" and "property q1 = property q2"
proof -
  show p: "property q1 = property q2"
    using assms(3) by (simp add: property_def [abs_def])
  then have pr: "present q1 = present q2"
    by (simp add: present_def [abs_def])
  have "set (Object_keys q1) = set (Object_keys q2)"
    using assms(3) by (metis Object_keys_def dom_map_of_conv_image_fst set_map)
  then have "set (kept_keys q1) = set (kept_keys q2)"
    by (simp add: kept_keys_def pr)
  moreover have "distinct (kept_keys q1)" "distinct (kept_keys q2)"
    using assms(1,2) by (simp_all add: kept_keys_def)
  moreover have "sorted (kept_keys q1)" "sorted (kept_keys q2)"
    by (simp_all add: kept_keys_def)
  ultimately show "kept_keys q1 = kept_keys q2"
    by (simp add: sorted_distinct_set_unique)
qed

section \<open>JSON text read back\<close>

lemma hex_cases: "d < 16 \<Longrightarrow> d = 0 \<or> d = 1 \<or> d = 2 \<or> d = 3 \<or> d = 4 \<or> d = 5 \<or> d = 6 \<or> d = 7 \<or> d = 8 \<or> d = 9
   \<or> d = 10 \<or> d = 11 \<or> d = 12 \<or> d = 13 \<or> d = 14 \<or> d = (15::nat)"
  by arith

lemma hex_val_hex_lower: "d < 16 \<Longrightarrow> hex_val (hex_lower d) = Some d"
  using hex_cases [of d] by (auto simp: hex_val_def hex_lower_def)

lemma cons_fst_Some: "cons_fst x (Some (xs, r)) = Some (x # xs, r)"
  by (simp add: cons_fst_def)

lemma parse_control:
  assumes "parse_string_body rest = Some (s, r)" "(of_char c :: nat) < 32"
  shows "parse_string_body (CHR 0x5C # CHR ''u'' # CHR ''0'' # CHR ''0'' #
            hex_lower (of_char c div 16) # hex_lower (of_char c mod 16) # rest) = Some (c # s, r)"
proof -
  let ?n = "of_char c :: nat"
  have h: "hex_val (hex_lower (?n div 16)) = Some (?n div 16)"
          "hex_val (hex_lower (?n mod 16)) = Some (?n mod 16)"
    using assms(2) by (simp_all add: hex_val_hex_lower)
  have z: "hex_val CHR ''0'' = Some 0" by (simp add: hex_val_def)
  have "char_of (?n div 16 * 16 + ?n mod 16) = c"
    by simp
  moreover have "?n div 16 * 16 + ?n mod 16 < 256"
    using assms(2) by simp
  ultimately show ?thesis
    using assms(1) by (simp add: h z cons_fst_Some)
qed

lemma parse_quote_unit:
  assumes "parse_string_body rest = Some (s, r)"
  shows "parse_string_body (quote_unit c @ rest) = Some (c # s, r)"
proof (cases "c = CHR 0x22 \<or> c = CHR 0x5C \<or> c = CHR 0x08 \<or> c = CHR 0x0C \<or> c = CHR 0x0A
              \<or> c = CHR 0x0D \<or> c = CHR 0x09")
  case True
  with assms show ?thesis
    by (auto simp: quote_unit_def unescape_def cons_fst_Some)
next
  case False
  show ?thesis
  proof (cases "(of_char c :: nat) < 32")
    case True
    with False parse_control [OF assms True] show ?thesis
      by (simp add: quote_unit_def)
  next
    case ge: False
    with False assms show ?thesis
      by (simp add: quote_unit_def cons_fst_Some)
  qed
qed

lemma parse_quoted:
  "parse_string_body (concat (map quote_unit s) @ CHR 0x22 # rest) = Some (s, rest)"
  by (induction s) (simp_all add: parse_quote_unit)

lemma is_digit_digit_char: "d < 10 \<Longrightarrow> is_digit (digit_char d)"
  using digit_cases [of d] by (auto simp: is_digit_def digit_char_def)

lemma digit_char_zero: "d < 10 \<Longrightarrow> digit_char d = CHR ''0'' \<longleftrightarrow> d = 0"
  using digit_cases [of d] by (auto simp: digit_char_def)

lemma show_nat_digits: "\<forall>c \<in> set (show_nat m). is_digit c"
proof (induction m rule: show_nat.induct)
  case (1 n)
  show ?case
  proof (cases "n < 10")
    case True
    then show ?thesis by (subst show_nat.simps) (simp add: is_digit_digit_char)
  next
    case False
    with 1 show ?thesis by (subst show_nat.simps) (simp add: is_digit_digit_char)
  qed
qed

lemma hd_show_nat_zero: "hd (show_nat m) = CHR ''0'' \<longleftrightarrow> m = 0"
proof (induction m rule: show_nat.induct)
  case (1 n)
  show ?case
  proof (cases "n < 10")
    case True
    then show ?thesis by (subst show_nat.simps) (simp add: digit_char_zero)
  next
    case False
    then have "n div 10 \<noteq> 0" by simp
    with False 1 show_nat_head [of "n div 10"] show ?thesis
      by (subst show_nat.simps) simp
  qed
qed

lemma show_nat_0: "show_nat 0 = ''0''"
  by (simp add: show_nat.simps digit_char_def)

lemma no_leading_zero: "\<not> (1 < length (show_nat m) \<and> hd (show_nat m) = CHR ''0'')"
proof
  assume a: "1 < length (show_nat m) \<and> hd (show_nat m) = CHR ''0''"
  then have "m = 0" by (simp add: hd_show_nat_zero)
  with a show False by (simp add: show_nat_0)
qed

lemma follows_not_digit:
  "follows rest \<Longrightarrow> takeWhile is_digit rest = [] \<and> dropWhile is_digit rest = rest
     \<and> \<not> (rest \<noteq> [] \<and> (hd rest = CHR ''.'' \<or> hd rest = CHR ''e'' \<or> hd rest = CHR ''E''))"
  by (cases rest) (auto simp: follows_def is_digit_def)

lemma digits_then:
  assumes "follows rest"
  shows "takeWhile is_digit (show_nat m @ rest) = show_nat m"
    and "dropWhile is_digit (show_nat m @ rest) = rest"
  using follows_not_digit [OF assms] show_nat_digits [of m]
  by simp_all

lemma parse_number_show_int:
  assumes "follows rest"
  shows "parse_number (show_int n @ rest) = Some (JNum n, rest)"
proof (cases "n < 0")
  case True
  then have s: "show_int n = CHR ''-'' # show_nat (nat (- n))"
    by (simp add: show_int_def)
  show ?thesis
    using True follows_not_digit [OF assms] show_nat_head [of "nat (- n)"]
      no_leading_zero [of "nat (- n)"]
    by (simp add: s parse_number_def digits_then [OF assms] read_show_nat Let_def)
next
  case False
  then have s: "show_int n = show_nat (nat n)"
    by (simp add: show_int_def)
  have h: "hd (show_nat (nat n) @ rest) \<noteq> CHR ''-''"
    using show_nat_head [of "nat n"] by simp
  show ?thesis
    using False follows_not_digit [OF assms] show_nat_head [of "nat n"]
      no_leading_zero [of "nat n"] h
    by (simp add: s parse_number_def digits_then [OF assms] read_show_nat Let_def)
qed

lemma skip_ws_start: "\<not> is_ws c \<Longrightarrow> skip_ws (c # cs) = c # cs"
  by (simp add: skip_ws_def)

lemma text_of_simps:
  "text_of JNull = ''null''"
  "text_of (JBool b) = (if b then ''true'' else ''false'')"
  "text_of (JNum n) = show_int n"
  "text_of (JStr s) = QuoteJSONString s"
  "text_of (JArr xs) = ''['' @ join '','' (map text_of xs) @ '']''"
  by (simp_all add: text_of_def [abs_def])

lemma safe_stringify: "json_safe v \<Longrightarrow> JSON_stringify v = Some (text_of v)"
  by (cases v) (simp_all add: text_of_def)

lemma text_of_obj:
  assumes "\<forall>kv \<in> set kvs. json_safe (snd kv)"
  shows "text_of (JObj kvs) = ''{'' @ join '','' (map member_text kvs) @ ''}''"
proof -
  have "concat (map (\<lambda>kv. case JSON_stringify (snd kv) of
                                    None \<Rightarrow> []
                                  | Some s \<Rightarrow> [QuoteJSONString (fst kv) @ '':'' @ s]) kvs)
        = map member_text kvs"
    using assms by (induction kvs) (simp_all add: safe_stringify member_text_def)
  then show ?thesis by (simp add: text_of_def)
qed

lemma show_int_start: "\<exists>c cs. show_int n = c # cs \<and> (is_digit c \<or> c = CHR ''-'')"
proof (cases "n < 0")
  case True
  then show ?thesis by (simp add: show_int_def)
next
  case False
  obtain c cs where s: "show_nat (nat n) = c # cs"
    using show_nat_head [of "nat n"] by (cases "show_nat (nat n)") auto
  with show_nat_digits [of "nat n"] have "is_digit c" by simp
  with False s show ?thesis by (simp add: show_int_def)
qed

lemma digit_not_special:
  assumes "is_digit c \<or> c = CHR ''-''"
  shows "\<not> is_ws c" "c \<noteq> CHR ''n''" "c \<noteq> CHR ''t''" "c \<noteq> CHR ''f''" "c \<noteq> CHR 0x22"
    "c \<noteq> CHR ''[''" "c \<noteq> CHR ''{''" "c \<noteq> CHR '']''" "c \<noteq> CHR ''}''"
  using assms by (auto simp: is_digit_def is_ws_def)

lemma text_start:
  "\<exists>c cs. text_of v = c # cs \<and> value_start c"
proof (cases v)
  case (JNum n)
  obtain c cs where "show_int n = c # cs" "is_digit c \<or> c = CHR ''-''"
    using show_int_start by blast
  with JNum show ?thesis
    by (auto simp: text_of_simps value_start_def digit_not_special)
qed (auto simp: text_of_def value_start_def is_ws_def QuoteJSONString_def)

lemma pv_null: "parse_value (Suc m) (''null'' @ rest) = Some (JNull, rest)"
  by (simp add: skip_ws_def is_ws_def literal_def)

lemma pv_true: "parse_value (Suc m) (''true'' @ rest) = Some (JBool True, rest)"
  by (simp add: skip_ws_def is_ws_def literal_def)

lemma pv_false: "parse_value (Suc m) (''false'' @ rest) = Some (JBool False, rest)"
  by (simp add: skip_ws_def is_ws_def literal_def)

lemma pv_num:
  assumes "follows rest"
  shows "parse_value (Suc m) (show_int n @ rest) = Some (JNum n, rest)"
proof -
  obtain c cs where s: "show_int n = c # cs" and c: "is_digit c \<or> c = CHR ''-''"
    using show_int_start by blast
  have "parse_value (Suc m) (c # cs @ rest) = parse_number (c # cs @ rest)"
    by (simp add: skip_ws_start digit_not_special [OF c])
  with parse_number_show_int [OF assms, of n] s show ?thesis by simp
qed

lemma pv_str: "parse_value (Suc m) (QuoteJSONString s @ rest) = Some (JStr s, rest)"
  by (simp add: QuoteJSONString_def skip_ws_def is_ws_def parse_quoted)

lemma pv_arr_empty: "parse_value (Suc m) (''[]'' @ rest) = Some (JArr [], rest)"
  by (simp add: skip_ws_def is_ws_def)

lemma pv_obj_empty: "parse_value (Suc m) (''{}'' @ rest) = Some (JObj [], rest)"
  by (simp add: skip_ws_def is_ws_def)

lemma pv_arr:
  assumes "parse_elements m (c # cs) = Some (xs, rest)" "value_start c"
  shows "parse_value (Suc m) (CHR ''['' # c # cs) = Some (JArr xs, rest)"
  using assms by (simp add: skip_ws_def is_ws_def value_start_def)

lemma pv_obj:
  assumes "parse_members m (c # cs) = Some (kvs, rest)" "value_start c"
  shows "parse_value (Suc m) (CHR ''{'' # c # cs)
         = Some (JObj (fold (\<lambda>kv. AList.update (fst kv) (snd kv)) kvs []), rest)"
  using assms by (simp add: skip_ws_def is_ws_def value_start_def)

lemma fold_update_distinct:
  "distinct (map fst (acc @ kvs)) \<Longrightarrow>
   fold (\<lambda>kv. AList.update (fst kv) (snd kv)) kvs acc = acc @ kvs"
proof (induction kvs arbitrary: acc)
  case Nil
  then show ?case by simp
next
  case (Cons kv kvs)
  have "fst kv \<notin> fst ` set acc" using Cons.prems by auto
  then have "AList.update (fst kv) (snd kv) acc = acc @ [kv]"
    by (induction acc) auto
  with Cons show ?case by simp
qed

lemma parse_elements_ok:
  assumes "\<And>x n rest. x \<in> set xs \<Longrightarrow> size x < n \<Longrightarrow> follows rest
             \<Longrightarrow> parse_value n (text_of x @ rest) = Some (x, rest)"
    and "xs \<noteq> []" "size_list size xs < n"
  shows "parse_elements n (join '','' (map text_of xs) @ CHR '']'' # rest) = Some (xs, rest)"
  using assms
proof (induction xs arbitrary: n)
  case Nil
  then show ?case by simp
next
  case (Cons x ys)
  from Cons.prems(3) obtain m where n: "n = Suc m" and m: "size x < m" "size_list size ys < m"
    by (cases n) auto
  show ?case
  proof (cases ys)
    case Nil
    have "parse_value m (text_of x @ CHR '']'' # rest) = Some (x, CHR '']'' # rest)"
      using m by (intro Cons.prems(1)) (simp_all add: follows_def)
    with Nil n show ?thesis
      by (simp add: skip_ws_def is_ws_def)
  next
    case (Cons y zs)
    let ?tail = "join '','' (map text_of ys) @ CHR '']'' # rest"
    have "parse_value m (text_of x @ CHR '','' # ?tail) = Some (x, CHR '','' # ?tail)"
      using m by (intro Cons.prems(1)) (simp_all add: follows_def)
    moreover have "parse_elements m ?tail = Some (ys, rest)"
      using Cons m Cons.prems(1) by (intro Cons.IH) simp_all
    ultimately show ?thesis
      using Cons n by (simp add: skip_ws_def is_ws_def cons_fst_Some)
  qed
qed

lemma parse_members_ok:
  assumes "\<And>kv n rest. kv \<in> set kvs \<Longrightarrow> size (snd kv) < n \<Longrightarrow> follows rest
             \<Longrightarrow> parse_value n (text_of (snd kv) @ rest) = Some (snd kv, rest)"
    and "kvs \<noteq> []" "size_list (\<lambda>kv. Suc (size (snd kv))) kvs < n"
  shows "parse_members n (join '','' (map member_text kvs) @ CHR ''}'' # rest) = Some (kvs, rest)"
  using assms
proof (induction kvs arbitrary: n)
  case Nil
  then show ?case by simp
next
  case (Cons kv ys)
  obtain k v where kv: "kv = (k, v)" by (cases kv)
  from Cons.prems(3) obtain m where n: "n = Suc m" and m: "size v < m"
      "size_list (\<lambda>kv. Suc (size (snd kv))) ys < m"
    by (cases n) (auto simp: kv)
  have key: "\<And>tail. parse_string_body (concat (map quote_unit k) @ CHR 0x22 # tail) = Some (k, tail)"
    by (rule parse_quoted)
  have mt: "member_text (k, v) = CHR 0x22 # concat (map quote_unit k) @ CHR 0x22 # CHR '':'' # text_of v"
    by (simp add: member_text_def QuoteJSONString_def)
  show ?case
  proof (cases ys)
    case Nil
    have "parse_value m (text_of v @ CHR ''}'' # rest) = Some (v, CHR ''}'' # rest)"
      using m Cons.prems(1) [of kv m "CHR ''}'' # rest"] by (simp add: follows_def kv)
    with Nil n show ?thesis
      by (simp add: mt skip_ws_def is_ws_def key kv)
  next
    case (Cons y zs)
    let ?tail = "join '','' (map member_text ys) @ CHR ''}'' # rest"
    have "parse_value m (text_of v @ CHR '','' # ?tail) = Some (v, CHR '','' # ?tail)"
      using m Cons.prems(1) [of kv m "CHR '','' # ?tail"] by (simp add: follows_def kv)
    moreover have "parse_members m ?tail = Some (ys, rest)"
      using Cons m Cons.prems(1) by (intro Cons.IH) simp_all
    ultimately show ?thesis
      using Cons n
      by (simp add: mt skip_ws_def is_ws_def key cons_fst_Some kv)
  qed
qed

lemma size_member: "size_prod (\<lambda>x. 0) size = (\<lambda>kv. Suc (size (snd kv)))"
  by (auto simp: fun_eq_iff)

lemma parse_value_text:
  "json_safe v \<Longrightarrow> size v < n \<Longrightarrow> follows rest
   \<Longrightarrow> parse_value n (text_of v @ rest) = Some (v, rest)"
proof (induction v arbitrary: n rest)
  case JUndefined
  then show ?case by simp
next
  case JNull
  then obtain m where "n = Suc m" by (cases n) auto
  then show ?case by (simp only: text_of_simps pv_null)
next
  case (JBool b)
  then obtain m where "n = Suc m" by (cases n) auto
  then show ?case by (cases b) (simp_all only: text_of_simps pv_true pv_false if_True if_False)
next
  case (JNum i)
  then obtain m where "n = Suc m" by (cases n) auto
  with JNum.prems(3) show ?case by (simp only: text_of_simps pv_num)
next
  case (JStr s)
  then obtain m where "n = Suc m" by (cases n) auto
  then show ?case by (simp only: text_of_simps pv_str)
next
  case (JArr xs)
  from JArr.prems(2) obtain m where n: "n = Suc m" and m: "size_list size xs < m"
    by (cases n) auto
  show ?case
  proof (cases "xs = []")
    case True
    with n pv_arr_empty [of m rest] show ?thesis by (simp add: text_of_simps)
  next
    case False
    have el: "parse_elements m (join '','' (map text_of xs) @ CHR '']'' # rest) = Some (xs, rest)"
      using JArr.IH JArr.prems(1) False m by (intro parse_elements_ok) simp_all
    obtain x ys where xs: "xs = x # ys" using False by (cases xs) auto
    obtain c cs where t: "text_of x = c # cs" and c: "value_start c"
      using text_start by blast
    have "\<exists>cs'. join '','' (map text_of xs) @ CHR '']'' # rest = c # cs'"
      by (cases ys) (simp_all add: xs t)
    then obtain cs' where j: "join '','' (map text_of xs) @ CHR '']'' # rest = c # cs'"
      by blast
    have "parse_value (Suc m) (CHR ''['' # c # cs') = Some (JArr xs, rest)"
      using el c unfolding j by (rule pv_arr)
    with n j show ?thesis by (simp add: text_of_simps)
  qed
next
  case (JObj kvs)
  from JObj.prems(2) obtain m where n: "n = Suc m"
      and m: "size_list (\<lambda>kv. Suc (size (snd kv))) kvs < m"
    by (cases n) (auto simp: size_member)
  have safe: "\<forall>kv \<in> set kvs. json_safe (snd kv)" and dist: "distinct (map fst kvs)"
    using JObj.prems(1) by simp_all
  have tx: "text_of (JObj kvs) = ''{'' @ join '','' (map member_text kvs) @ ''}''"
    using safe by (rule text_of_obj)
  show ?case
  proof (cases "kvs = []")
    case True
    with tx have e: "text_of (JObj kvs) = ''{}''" by simp
    show ?thesis
      unfolding n e by (simp only: True pv_obj_empty)
  next
    case False
    have ih: "\<And>kv n rest. kv \<in> set kvs \<Longrightarrow> size (snd kv) < n \<Longrightarrow> follows rest
             \<Longrightarrow> parse_value n (text_of (snd kv) @ rest) = Some (snd kv, rest)"
    proof -
      fix kv n rest
      assume a: "kv \<in> set kvs" "size (snd kv) < n" "follows rest"
      have "snd kv \<in> Basic_BNFs.snds kv" by (cases kv) simp
      with a safe show "parse_value n (text_of (snd kv) @ rest) = Some (snd kv, rest)"
        by (intro JObj.IH [of kv "snd kv"]) simp_all
    qed
    have me: "parse_members m (join '','' (map member_text kvs) @ CHR ''}'' # rest) = Some (kvs, rest)"
      using ih False m by (rule parse_members_ok)
    obtain kv ys where kvs: "kvs = kv # ys" using False by (cases kvs) auto
    have "\<exists>cs'. join '','' (map member_text kvs) @ CHR ''}'' # rest = CHR 0x22 # cs'"
      by (cases ys) (simp_all add: kvs member_text_def QuoteJSONString_def)
    then obtain cs' where j: "join '','' (map member_text kvs) @ CHR ''}'' # rest = CHR 0x22 # cs'"
      by blast
    have "value_start (CHR 0x22)" by (simp add: value_start_def is_ws_def)
    with me have "parse_value (Suc m) (CHR ''{'' # CHR 0x22 # cs')
         = Some (JObj (fold (\<lambda>kv. AList.update (fst kv) (snd kv)) kvs []), rest)"
      unfolding j by (rule pv_obj)
    moreover have "fold (\<lambda>kv. AList.update (fst kv) (snd kv)) kvs [] = kvs"
      using fold_update_distinct [of "[]" kvs] dist by simp
    ultimately show ?thesis using n j by (simp add: tx)
  qed
next
  case (JPromise v)
  then show ?case by simp
qed

lemma length_join:
  "length (join sep xs) = sum_list (map length xs) + (length xs - 1) * length sep"
  by (induction sep xs rule: join.induct) simp_all

lemma size_le_text: "json_safe v \<Longrightarrow> size v \<le> length (text_of v)"
proof (induction v)
  case (JArr xs)
  then have "\<forall>x \<in> set xs. size x \<le> length (text_of x)" by simp
  then have "size_list size xs \<le> sum_list (map length (map text_of xs)) + length xs"
    by (induction xs) auto
  then show ?case
    by (cases xs) (simp_all add: text_of_simps length_join)
next
  case (JObj kvs)
  then have safe: "\<forall>kv \<in> set kvs. json_safe (snd kv)" by simp
  have "\<forall>kv \<in> set kvs. Suc (size (snd kv)) \<le> length (member_text kv)"
  proof
    fix kv assume kv: "kv \<in> set kvs"
    have "snd kv \<in> Basic_BNFs.snds kv" by (cases kv) simp
    with kv safe JObj.IH [of kv "snd kv"] have "size (snd kv) \<le> length (text_of (snd kv))"
      by simp
    then show "Suc (size (snd kv)) \<le> length (member_text kv)"
      by (simp add: member_text_def)
  qed
  then have "size_list (\<lambda>kv. Suc (size (snd kv))) kvs
             \<le> sum_list (map length (map member_text kvs)) + length kvs"
    by (induction kvs) auto
  then show ?case
    unfolding text_of_obj [OF safe]
    by (cases kvs) (simp_all add: length_join size_member)
qed simp_all

lemma json_round_trip:
  assumes "json_safe v"
  shows "JSON_stringify v = Some (text_of v)" and "JSON_parse (text_of v) = Inr v"
proof -
  show "JSON_stringify v = Some (text_of v)"
    using assms by (rule safe_stringify)
  have "size v < Suc (length (text_of v))"
    using size_le_text [OF assms] by simp
  then have "parse_value (Suc (length (text_of v))) (text_of v @ []) = Some (v, [])"
    using assms by (intro parse_value_text) (simp_all add: follows_def)
  then show "JSON_parse (text_of v) = Inr v"
    by (simp add: JSON_parse_def skip_ws_def)
qed

section \<open>Writing and reading back\<close>





lemma listing_response_text: "JSON_parse (text_of listing_response) = Inr listing_response"
  by (rule json_round_trip(2)) (simp add: listing_response_def)


section \<open>Cache operations when the store is unavailable\<close>

text \<open>
  Claim C4. When \<open>isAvailable()\<close> is false, \<open>get(key)\<close> returns null for every key and
  \<open>set(key, value)\<close> returns false for every key, value and expiry; both return at once,
  as a value and not as an exception, and leave the world as it was.
\<close>

theorem unavailable_get_set:
  assumes "\<not> isAvailable w"
  shows "CacheService_get key t w = Some (Inr JNull, t, w)
       \<and> CacheService_set key v expiry t w = Some (Inr False, t, w)"
  using assms by (simp add: CacheService_get_def CacheService_set_def ret_def)

theorem unavailable_get_set_witness:
  "\<not> isAvailable w_closed
   \<and> CacheService_get (JStr ''k'') 10 w_closed = Some (Inr JNull, 10, w_closed)
   \<and> CacheService_set (JStr ''k'') (JNum 1) CACHE_EXPIRY 10 w_closed
       = Some (Inr False, 10, w_closed)"
proof -
  have down: "\<not> isAvailable w_closed"
    by (simp add: isAvailable_def w_closed_def w_up_def)
  show ?thesis
    using down unavailable_get_set [OF down, of "JStr ''k''" 10 "JNum 1" CACHE_EXPIRY]
    by simp
qed

section \<open>The timeout of a cache round trip\<close>

text \<open>
  Claim C1 says that the store round trip of every cache operation is cut off by its
  timer. In the code the reply is awaited before the race is set up, so the operation
  takes as long as the store takes: with a store that answers after 7 seconds \<open>get\<close>
  returns the stored value after 7 seconds, and with a store that never answers none of
  \<open>get\<close>, \<open>set\<close>, \<open>delete\<close>, \<open>invalidatePattern\<close> and \<open>clearAll\<close> ever returns.
  \<open>healthCheck\<close>, which hands the promise itself to the race, gives up after its
  3 seconds on the same store.
\<close>

theorem get_waits_past_timeout:
  "CacheService_get (JStr ''k'') 0 w_slow = Some (Inr (JNum 5), 7000, w_slow)
   \<and> CacheService_get (JStr ''k'') 0 w_hung = None
   \<and> CacheService_set (JStr ''k'') (JNum 5) CACHE_EXPIRY 0 w_hung = None
   \<and> CacheService_delete (JStr ''k'') 0 w_hung = None
   \<and> CacheService_invalidatePattern ''/api/v1/chapters*'' 0 w_hung = None
   \<and> CacheService_clearAll 0 w_hung = None
   \<and> CacheService_healthCheck 0 w_hung = Some (Inr (HealthError TimeoutError), 3000, w_hung)"
proof -
  have a: "CacheService_get (JStr ''k'') 0 w_slow = Some (Inr (JNum 5), 7000, w_slow)"
    by (simp add: get_unfold available_examples)
       (simp add: w_slow_def w_up_def lookup_def purge_def live_def parse_5)
  have b: "CacheService_get (JStr ''k'') 0 w_hung = None"
    by (simp add: get_unfold available_examples hung)
  have c: "CacheService_set (JStr ''k'') (JNum 5) CACHE_EXPIRY 0 w_hung = None"
    by (simp add: set_unfold available_examples hung)
  have d: "CacheService_delete (JStr ''k'') 0 w_hung = None"
    by (simp add: CacheService_delete_def guarded available_examples del_args_def arg_simps)
       (simp add: try_catch_def round_trip hung)
  have e: "CacheService_invalidatePattern ''/api/v1/chapters*'' 0 w_hung = None"
    by (simp add: invalidatePattern_unfold available_examples hung)
  have f: "CacheService_clearAll 0 w_hung = None"
    by (simp add: CacheService_clearAll_def guarded available_examples)
       (simp add: try_catch_def round_trip hung)
  have g: "CacheService_healthCheck 0 w_hung
           = Some (Inr (HealthError TimeoutError), 3000, w_hung)"
    by (simp add: CacheService_healthCheck_def bnd_def getClient_def try_catch_def ret_def
        timeout_promise_def send_def Promise_race_def race_at_def await_def w_hung_def w_up_def)
  from a b c d e f g show ?thesis by simp
qed

section \<open>Invalidation by pattern\<close>

text \<open>
  Claim C8. \<open>invalidatePattern(pattern)\<close> returns false when the service is unavailable
  and when the scan or the batch delete fails; it returns true when the scan found no key,
  leaving the store as it is, and when the scan found keys and the batch delete went
  through, which removes exactly the keys found.
\<close>

theorem invalidatePattern_result:
  "(\<not> isAvailable w \<longrightarrow> CacheService_invalidatePattern p t w = Some (Inr False, t, w))
   \<and> (isAvailable w \<and> mode w (KEYS p) = Errors d \<longrightarrow>
        CacheService_invalidatePattern p t w = Some (Inr False, t + d, w))
   \<and> (isAvailable w \<and> mode w (KEYS p) = Replies d \<and> matching_keys p (t + d) w = [] \<longrightarrow>
        CacheService_invalidatePattern p t w = Some (Inr True, t + d, w))
   \<and> (isAvailable w \<and> mode w (KEYS p) = Replies d \<and> matching_keys p (t + d) w \<noteq> []
        \<and> mode w (DEL (matching_keys p (t + d) w)) = Replies d' \<longrightarrow>
        CacheService_invalidatePattern p t w
          = Some (Inr True, t + d + d',
                  w\<lparr>db := filter (\<lambda>ke. fst ke \<notin> set (matching_keys p (t + d) w))
                             (purge (t + d + d') (db w))\<rparr>))
   \<and> (isAvailable w \<and> mode w (KEYS p) = Replies d \<and> matching_keys p (t + d) w \<noteq> []
        \<and> mode w (DEL (matching_keys p (t + d) w)) = Errors d' \<longrightarrow>
        CacheService_invalidatePattern p t w = Some (Inr False, t + d + d', w))"
proof -
  have "\<not> isAvailable w \<Longrightarrow> CacheService_invalidatePattern p t w = Some (Inr False, t, w)"
    by (simp add: CacheService_invalidatePattern_def ret_def)
  then show ?thesis
    by (auto simp: invalidatePattern_unfold)
qed

theorem invalidatePattern_result_witness:
  "isAvailable w_listing \<and> mode w_listing (KEYS ''/api/v1/chapters*'') = Replies 2
   \<and> matching_keys ''/api/v1/chapters*'' 12 w_listing = [''/api/v1/chapters?page=1'']
   \<and> mode w_listing (DEL [''/api/v1/chapters?page=1'']) = Replies 2
   \<and> CacheService_invalidatePattern ''/api/v1/chapters*'' 10 w_listing
       = Some (Inr True, 14,
               w_listing\<lparr>db := [(''rl:10.0.0.1'', \<lparr>val = ''3'', expires = Some 50000\<rparr>)]\<rparr>)
   \<and> matching_keys ''/none*'' 12 w_listing = []
   \<and> CacheService_invalidatePattern ''/none*'' 10 w_listing = Some (Inr True, 12, w_listing)
   \<and> \<not> isAvailable w_closed
   \<and> CacheService_invalidatePattern ''/api/v1/chapters*'' 10 w_closed
       = Some (Inr False, 10, w_closed)
   \<and> isAvailable w_failing \<and> mode w_failing (KEYS ''/api/v1/chapters*'') = Errors 3
   \<and> CacheService_invalidatePattern ''/api/v1/chapters*'' 10 w_failing
       = Some (Inr False, 13, w_failing)"
proof -
  have m: "mode w_listing = (\<lambda>cmd. Replies 2)" "mode w_failing = (\<lambda>cmd. Errors 3)"
    by (simp_all add: w_listing_def w_failing_def w_up_def)
  have k1: "matching_keys ''/api/v1/chapters*'' 12 w_listing = [''/api/v1/chapters?page=1'']"
    by (simp add: matching_keys_def w_listing_def w_up_def purge_def live_def)
  have k2: "matching_keys ''/none*'' 12 w_listing = []"
    by (simp add: matching_keys_def w_listing_def w_up_def purge_def live_def)
  have down: "\<not> isAvailable w_closed"
    by (simp add: isAvailable_def w_closed_def w_up_def)
  have after: "filter (\<lambda>ke. fst ke \<noteq> ''/api/v1/chapters?page=1'') (purge 14 (db w_listing))
               = [(''rl:10.0.0.1'', \<lparr>val = ''3'', expires = Some 50000\<rparr>)]"
    by (simp add: w_listing_def w_up_def purge_def live_def)
  show ?thesis
    using invalidatePattern_result [where w = w_listing and p = "''/api/v1/chapters*''"
                                      and t = 10 and d = 2 and d' = 2]
          invalidatePattern_result [where w = w_listing and p = "''/none*''"
                                      and t = 10 and d = 2 and d' = 2]
          invalidatePattern_result [where w = w_closed and p = "''/api/v1/chapters*''"
                                      and t = 10 and d = 2 and d' = 2]
          invalidatePattern_result [where w = w_failing and p = "''/api/v1/chapters*''"
                                      and t = 10 and d = 3 and d' = 2]
    by (simp add: m k1 k2 down after available_examples)
qed

section \<open>The key the listing handler passes to the cache\<close>

text \<open>
  Claim C9. \<open>generateCacheKey\<close> is asynchronous and \<open>getChapters\<close> does not await it, so
  for every query the key it passes to \<open>get\<close> and \<open>set\<close> is a promise (holding the key
  string) and not a string. The store client refuses such a key, and \<open>get\<close> and \<open>set\<close>
  catch the refusal: whatever the query, the time and the state of service and store, the
  lookup of the handler returns null and its write-through returns false, at once and
  leaving the store as it is. Where the store holds the listing under the key string,
  \<open>get\<close> with the string finds it and the lookup of the handler does not.
\<close>

theorem listing_cache_key_is_refused_promise:
  "getChapters_cacheKey q = JPromise (JStr (generateCacheKey_body ''/api/v1/chapters'' q))
   \<and> string_arg (getChapters_cacheKey q) = Inl TypeError
   \<and> getChapters_lookup q t w = Some (Inr JNull, t, w)
   \<and> getChapters_store q responseData t w = Some (Inr False, t, w)
   \<and> CacheService_get (JStr (generateCacheKey_body ''/api/v1/chapters'' [])) 10 w_cached
       = Some (Inr listing_response, 12, w_cached)
   \<and> getChapters_lookup [] 10 w_cached = Some (Inr JNull, 10, w_cached)"
proof -
  have key: "getChapters_cacheKey q
             = JPromise (JStr (generateCacheKey_body ''/api/v1/chapters'' q))" for q
    by (simp add: getChapters_cacheKey_def generateCacheKey_def)
  have refused: "string_arg (getChapters_cacheKey q) = Inl TypeError" for q
    by (simp add: key arg_simps)
  have miss: "getChapters_lookup q t w = Some (Inr JNull, t, w)" for q t w
    unfolding getChapters_lookup_def using refused by (rule get_refused)
  have unwritten: "getChapters_store q responseData t w = Some (Inr False, t, w)"
    unfolding getChapters_store_def using refused by (rule set_refused)
  have a: "isAvailable w_cached"
    by (simp add: isAvailable_def w_cached_def w_up_def)
  have body: "generateCacheKey_body ''/api/v1/chapters'' [] = ''/api/v1/chapters''"
    by code_simp
  have nonempty: "text_of listing_response \<noteq> []"
    by (simp add: text_of_def listing_response_def)
  have hit: "CacheService_get (JStr (generateCacheKey_body ''/api/v1/chapters'' [])) 10 w_cached
             = Some (Inr listing_response, 12, w_cached)"
    unfolding body
    by (simp add: get_unfold [OF a])
       (simp add: w_cached_def w_up_def lookup_def purge_def live_def nonempty
          listing_response_text)
  from key refused miss unwritten hit show ?thesis
    by simp
qed

text \<open>
  As claim C9 is worded, two requests with different query mappings use the same effective
  key, so that the response one of them writes through is the one the other looks up. In
  the code the keys of two such requests are different promises and neither is a key of
  the store: on an available service with an empty store the write-through of the request
  for page 1 returns false and stores nothing, and the lookup of the request for page 2,
  as well as that of page 1 itself, is a miss.
\<close>

theorem listing_requests_share_no_entry:
  "getChapters_cacheKey [(''page'', JNum 1)] \<noteq> getChapters_cacheKey [(''page'', JNum 2)]
   \<and> isAvailable w_up \<and> db w_up = []
   \<and> getChapters_store [(''page'', JNum 1)] listing_response 10 w_up
       = Some (Inr False, 10, w_up)
   \<and> getChapters_lookup [(''page'', JNum 2)] 10 w_up = Some (Inr JNull, 10, w_up)
   \<and> getChapters_lookup [(''page'', JNum 1)] 10 w_up = Some (Inr JNull, 10, w_up)"
proof -
  have k: "getChapters_cacheKey [(''page'', JNum 1)] = JPromise (JStr ''/api/v1/chapters?page=1'')"
          "getChapters_cacheKey [(''page'', JNum 2)] = JPromise (JStr ''/api/v1/chapters?page=2'')"
    by code_simp+
  have e: "db w_up = []"
    by (simp add: w_up_def)
  have s: "getChapters_store [(''page'', JNum 1)] listing_response 10 w_up
           = Some (Inr False, 10, w_up)"
    unfolding getChapters_store_def k
    by (simp add: set_unfold available_examples CacheService_set_def guarded arg_simps)
       (simp add: try_catch_def bnd_def raise_def ret_def)
  have g: "getChapters_lookup [(''page'', JNum 2)] 10 w_up = Some (Inr JNull, 10, w_up)"
          "getChapters_lookup [(''page'', JNum 1)] 10 w_up = Some (Inr JNull, 10, w_up)"
    unfolding getChapters_lookup_def k
    by (simp_all add: CacheService_get_def guarded available_examples arg_simps)
       (simp_all add: try_catch_def bnd_def raise_def ret_def)
  from k e s g available_examples(1) show ?thesis
    by simp
qed

section \<open>Rate limiter: decrement\<close>

text \<open>
  Where the clamp holds: when the store carries out the DECR and, for a counter that is
  absent or at 0, also the corrective SET, a counter that is absent or holds a number
  that is not negative holds a number that is not negative when \<open>decrement\<close> has
  completed, and a counter at 0 is at 0 afterwards. For a positive counter no SET is
  issued and nothing is asked of it.
\<close>

lemma decrement_clamps_when_carried_out:
  assumes "redisClient w = Some c" "isOpen c"
    and "mode w (DECR (RedisStore_prefix @ key)) = Replies d1"
    and "counter (t + d1) w key = None \<or> counter_value (t + d1) w key = Some 0
         \<Longrightarrow> mode w (SET (RedisStore_prefix @ key) ''0'') = Replies d2"
    and "counter (t + d1) w key = None \<or> (\<exists>n. counter_value (t + d1) w key = Some n \<and> 0 \<le> n)"
  shows "\<exists>t' w' n'. RedisStore_decrement key t w = Some (Inr (), t', w')
           \<and> counter_value t' w' key = Some n' \<and> 0 \<le> n'
           \<and> (counter_value (t + d1) w key = Some 0 \<longrightarrow> n' = 0)"
proof (cases "\<exists>n. counter_value (t + d1) w key = Some n \<and> 0 < n")
  case True
  then obtain n e where e: "counter (t + d1) w key = Some e" "read_int (val e) = Some n" and n: "0 < n"
    by (auto simp: counter_value_def split: option.splits)
  let ?e' = "e\<lparr>val := show_int (n - 1)\<rparr>"
  let ?w' = "w\<lparr>db := AList.update (RedisStore_prefix @ key) ?e' (purge (t + d1) (db w))\<rparr>"
  have run: "RedisStore_decrement key t w = Some (Inr (), t + d1, ?w')"
    using assms(1-3) e n by (rule decrement_positive)
  have "live (t + d1) e"
    using e(1) by (auto simp: counter_def dest: lookup_live)
  then have "live (t + d1) ?e'" by (simp add: live_def)
  then have "counter (t + d1) ?w' key = Some ?e'"
    by (simp add: counter_def lookup_update_same)
  moreover have "read_int (show_int (n - 1)) = Some (n - 1)"
    using read_int_range [OF e(2)] n by (intro read_int_show_int) simp_all
  ultimately have "counter_value (t + d1) ?w' key = Some (n - 1)"
    by (simp add: counter_value_def)
  moreover have "counter_value (t + d1) w key \<noteq> Some 0"
    using e n by (simp add: counter_value_def)
  ultimately show ?thesis using run n by auto
next
  case False
  with assms(5) have zero: "counter (t + d1) w key = None \<or> counter_value (t + d1) w key = Some 0"
    by force
  then have "counter (t + d1) w key = None
         \<or> (\<exists>e n. counter (t + d1) w key = Some e \<and> read_int (val e) = Some n
                  \<and> n \<le> 0 \<and> - (2 ^ 63) < n)"
    by (auto simp: counter_value_def split: option.splits)
  from decrement_negative [OF assms(1-3) assms(4) [OF zero] this] obtain d' where
    run: "RedisStore_decrement key t w
         = Some (Inr (), t + d1 + d2,
                 w\<lparr>db := AList.update (RedisStore_prefix @ key) \<lparr>val = ''0'', expires = None\<rparr> d'\<rparr>)"
    by blast
  have "counter_value (t + d1 + d2)
          (w\<lparr>db := AList.update (RedisStore_prefix @ key) \<lparr>val = ''0'', expires = None\<rparr> d'\<rparr>) key
        = Some 0"
    by (simp add: counter_value_def counter_def lookup_update_same live_no_deadline read_int_0)
  with run show ?thesis by auto
qed

lemma decrement_clamps_at_zero:
  "redisClient w_zero = Some \<lparr>isOpen = True\<rparr> \<and> isOpen \<lparr>isOpen = True\<rparr>
   \<and> mode w_zero (DECR (RedisStore_prefix @ ''10.0.0.1'')) = Replies 2
   \<and> mode w_zero (SET (RedisStore_prefix @ ''10.0.0.1'') ''0'') = Replies 2
   \<and> counter_value 12 w_zero ''10.0.0.1'' = Some 0
   \<and> (\<exists>t' w'. RedisStore_decrement ''10.0.0.1'' 10 w_zero = Some (Inr (), t', w')
          \<and> counter_value t' w' ''10.0.0.1'' = Some 0)"
proof -
  have c: "redisClient w_zero = Some \<lparr>isOpen = True\<rparr>" "isOpen \<lparr>isOpen = True\<rparr>"
    and m: "mode w_zero (DECR (RedisStore_prefix @ ''10.0.0.1'')) = Replies 2"
           "mode w_zero (SET (RedisStore_prefix @ ''10.0.0.1'') ''0'') = Replies 2"
    by (simp_all add: w_zero_def w_up_def)
  have v: "counter_value (10 + 2) w_zero ''10.0.0.1'' = Some 0"
    by (simp add: counter_value_def counter_def lookup_def purge_def live_def w_zero_def
        w_up_def RedisStore_prefix_def read_int_0)
  then have h: "counter (10 + 2) w_zero ''10.0.0.1'' = None
                \<or> (\<exists>n. counter_value (10 + 2) w_zero ''10.0.0.1'' = Some n \<and> 0 \<le> n)"
    by simp
  from decrement_clamps_when_carried_out [OF c m(1) m(2) h] v c m show ?thesis
    by auto
qed

text \<open>
  Claim C6 says that \<open>decrement(key)\<close> never leaves a counter below zero: after it has
  completed the counter is at least 0, and a counter at 0 stays at 0. The code clamps in
  two steps, a DECR and then, when the result is negative, a SET of 0 (its comment: do
  not let it go below 0), and swallows every error of the store. With a counter at 0 and
  a store that carries out the DECR but answers the corrective SET with an error,
  \<open>decrement\<close> completes without an error and leaves the counter at -1.
\<close>

theorem decrement_failed_correction:
  "RedisStore_decrement ''10.0.0.1'' 10 w_set_fails
     = Some (Inr (), 15,
             w_set_fails\<lparr>db := [(''rl:10.0.0.1'', \<lparr>val = ''-1'', expires = Some 50000\<rparr>)]\<rparr>)
   \<and> counter_value 15
         (w_set_fails\<lparr>db := [(''rl:10.0.0.1'', \<lparr>val = ''-1'', expires = Some 50000\<rparr>)]\<rparr>)
         ''10.0.0.1'' = Some (- 1)"
proof -
  have c: "redisClient w_set_fails = Some \<lparr>isOpen = True\<rparr>" "isOpen \<lparr>isOpen = True\<rparr>"
    by (simp_all add: w_set_fails_def w_zero_def w_up_def)
  have run: "RedisStore_decrement ''10.0.0.1'' 10 w_set_fails
     = Some (Inr (), 15,
             w_set_fails\<lparr>db := [(''rl:10.0.0.1'', \<lparr>val = ''-1'', expires = Some 50000\<rparr>)]\<rparr>)"
    unfolding decrement_open [OF c]
    by (simp add: try_catch_def bnd_def call_unfold ret_def js_lt0_def incr_by_def
        w_set_fails_def w_zero_def w_up_def RedisStore_prefix_def purge_def live_def
        read_int_0 show_int_small)
  have "counter_value 15
         (w_set_fails\<lparr>db := [(''rl:10.0.0.1'', \<lparr>val = ''-1'', expires = Some 50000\<rparr>)]\<rparr>)
         ''10.0.0.1'' = Some (- 1)"
    by (simp add: counter_value_def counter_def lookup_def purge_def live_def
        RedisStore_prefix_def read_int_minus_1)
  with run show ?thesis by simp
qed

text \<open>
  Claim C10. When the decrement makes the counter negative (the counter was absent, or
  held 0 or less), \<open>decrement\<close> writes 0 with a plain SET. The entry written has no
  expiry deadline, whatever deadline the counter had: at every later time the key is
  still there with the value 0.
\<close>

theorem decrement_correction_drops_ttl:
  assumes "redisClient w = Some c" "isOpen c"
    and "mode w (DECR (RedisStore_prefix @ key)) = Replies d1"
    and "mode w (SET (RedisStore_prefix @ key) ''0'') = Replies d2"
    and "counter (t + d1) w key = None
         \<or> (\<exists>n. counter_value (t + d1) w key = Some n \<and> n \<le> 0 \<and> - (2 ^ 63) < n)"
  shows "\<exists>w'. RedisStore_decrement key t w = Some (Inr (), t + d1 + d2, w')
           \<and> (\<forall>t'. counter t' w' key = Some \<lparr>val = ''0'', expires = None\<rparr>)"
proof -
  from assms(5) have "counter (t + d1) w key = None
         \<or> (\<exists>e n. counter (t + d1) w key = Some e \<and> read_int (val e) = Some n
                  \<and> n \<le> 0 \<and> - (2 ^ 63) < n)"
    by (auto simp: counter_value_def split: option.splits)
  from decrement_negative [OF assms(1-4) this] obtain d' where
    run: "RedisStore_decrement key t w
         = Some (Inr (), t + d1 + d2,
                 w\<lparr>db := AList.update (RedisStore_prefix @ key) \<lparr>val = ''0'', expires = None\<rparr> d'\<rparr>)"
    by blast
  have "\<forall>t'. counter t'
          (w\<lparr>db := AList.update (RedisStore_prefix @ key) \<lparr>val = ''0'', expires = None\<rparr> d'\<rparr>) key
        = Some \<lparr>val = ''0'', expires = None\<rparr>"
    by (simp add: counter_def lookup_update_same live_no_deadline)
  with run show ?thesis by blast
qed

theorem decrement_correction_drops_ttl_witness:
  "redisClient w_zero = Some \<lparr>isOpen = True\<rparr> \<and> isOpen \<lparr>isOpen = True\<rparr>
   \<and> mode w_zero (DECR (RedisStore_prefix @ ''10.0.0.1'')) = Replies 2
   \<and> mode w_zero (SET (RedisStore_prefix @ ''10.0.0.1'') ''0'') = Replies 2
   \<and> counter 12 w_zero ''10.0.0.1'' = Some \<lparr>val = ''0'', expires = Some 50000\<rparr>
   \<and> (\<exists>w'. RedisStore_decrement ''10.0.0.1'' 10 w_zero = Some (Inr (), 14, w')
          \<and> (\<forall>t'. counter t' w' ''10.0.0.1'' = Some \<lparr>val = ''0'', expires = None\<rparr>))"
proof -
  have c: "redisClient w_zero = Some \<lparr>isOpen = True\<rparr>" "isOpen \<lparr>isOpen = True\<rparr>"
    and m: "mode w_zero (DECR (RedisStore_prefix @ ''10.0.0.1'')) = Replies 2"
           "mode w_zero (SET (RedisStore_prefix @ ''10.0.0.1'') ''0'') = Replies 2"
    by (simp_all add: w_zero_def w_up_def)
  have e: "counter (10 + 2) w_zero ''10.0.0.1'' = Some \<lparr>val = ''0'', expires = Some 50000\<rparr>"
    by (simp add: counter_def lookup_def purge_def live_def w_zero_def w_up_def
        RedisStore_prefix_def)
  then have h: "counter (10 + 2) w_zero ''10.0.0.1'' = None
         \<or> (\<exists>n. counter_value (10 + 2) w_zero ''10.0.0.1'' = Some n \<and> n \<le> 0 \<and> - (2 ^ 63) < n)"
    by (simp add: counter_value_def read_int_0)
  from decrement_correction_drops_ttl [OF c m h] e c m show ?thesis
    by simp
qed

section \<open>Rate limiter: increment\<close>

text \<open>
  Claim C2 gives the fail-open answer the reset time now + window length. The rate limiter
  store computes it as now + 60000 whatever window the limiter was configured with (the
  handler in \<open>createRateLimiter\<close> that would use \<open>windowMs\<close> is never reached, since
  \<open>RedisStore.incr\<close> catches every error itself). For a limiter with a window of 120000 ms
  at time 1000: no client, a closed client and a failing INCR all give one hit and a reset
  time 60000 ms ahead, not 120000 ms.
\<close>

theorem fail_open_reset_ignores_window:
  "createRateLimiter_incr 120000 ''10.0.0.1'' 1000 w_down
     = Some (Inr \<lparr>totalHits = JNum 1, resetTime = 61000\<rparr>, 1000, w_down)
   \<and> createRateLimiter_incr 120000 ''10.0.0.1'' 1000 w_closed
     = Some (Inr \<lparr>totalHits = JNum 1, resetTime = 61000\<rparr>, 1000, w_closed)
   \<and> createRateLimiter_incr 120000 ''10.0.0.1'' 1000 w_failing
     = Some (Inr \<lparr>totalHits = JNum 1, resetTime = 61003\<rparr>, 1003, w_failing)"
proof -
  have a: "RedisStore_incr ''10.0.0.1'' 1000 w_down
           = Some (Inr \<lparr>totalHits = JNum 1, resetTime = 1000 + 60000\<rparr>, 1000, w_down)"
    by (rule incr_closed) (simp add: w_down_def w_up_def)
  have b: "RedisStore_incr ''10.0.0.1'' 1000 w_closed
           = Some (Inr \<lparr>totalHits = JNum 1, resetTime = 1000 + 60000\<rparr>, 1000, w_closed)"
    by (rule incr_closed) (simp add: w_closed_def w_up_def)
  have c: "RedisStore_incr ''10.0.0.1'' 1000 w_failing
           = Some (Inr \<lparr>totalHits = JNum 1, resetTime = 1000 + 3 + 60000\<rparr>, 1000 + 3, w_failing)"
    by (rule incr_store_error [where c = "\<lparr>isOpen = True\<rparr>"])
       (simp_all add: w_failing_def w_up_def)
  from a b c show ?thesis
    by (simp add: wrapper_passes)
qed

text \<open>
  Claim C7 has the first hit set the expiry of the key to the configured window and the
  reset time to now + that window. The store sets the expiry to 60 seconds and the reset
  time to now + 60000 for every limiter: for a window of 120000 ms, a first hit at time
  1000 on a store that answers after 2 ms leaves the key with the deadline 61004 and
  reports the reset time 61004.
\<close>

theorem first_hit_expiry_ignores_window:
  "createRateLimiter_incr 120000 ''10.0.0.1'' 1000 w_up
     = Some (Inr \<lparr>totalHits = JNum 1, resetTime = 61004\<rparr>, 1004,
             w_up\<lparr>db := [(''rl:10.0.0.1'', \<lparr>val = ''1'', expires = Some 61004\<rparr>)]\<rparr>)"
proof -
  have c: "redisClient w_up = Some \<lparr>isOpen = True\<rparr>" "isOpen \<lparr>isOpen = True\<rparr>"
    by (simp_all add: w_up_def)
  have "RedisStore_incr ''10.0.0.1'' 1000 w_up
     = Some (Inr \<lparr>totalHits = JNum 1, resetTime = 61004\<rparr>, 1004,
             w_up\<lparr>db := [(''rl:10.0.0.1'', \<lparr>val = ''1'', expires = Some 61004\<rparr>)]\<rparr>)"
    unfolding incr_open [OF c]
    by (simp add: try_catch_def bnd_def call_unfold ret_def Date_now_def incr_by_def
        w_up_def RedisStore_prefix_def purge_def live_def lookup_def show_int_small)
  then show ?thesis by (rule wrapper_passes)
qed

section \<open>The cache key\<close>

text \<open>
  Claim C3, as amended. \<open>generateCacheKey(endpoint, query)\<close> resolves to \<open>endpoint\<close> when the
  query mapping is empty, and also when every key of it has a null or undefined value;
  otherwise to \<open>endpoint\<close>, a \<open>?\<close>, and the remaining keys in sorted order, each as
  \<open>key=url-encoded-value\<close>, joined with \<open>&\<close>. Two objects that are equal as key-value
  maps give the same key, whatever the order of their properties. The two examples of the
  specification hold.
\<close>

theorem generateCacheKey_sorted_pairs:
  "generateCacheKey_body endpoint [] = endpoint
   \<and> generateCacheKey_body endpoint query =
       (if kept_keys query = [] then endpoint
        else endpoint @ ''?'' @ join ''&'' (map (pair_text query) (kept_keys query)))
   \<and> (distinct (Object_keys q1) \<and> distinct (Object_keys q2) \<and> map_of q1 = map_of q2
        \<longrightarrow> generateCacheKey_body endpoint q1 = generateCacheKey_body endpoint q2)
   \<and> generateCacheKey_body ''/x'' [(''b'', JNum 2), (''a'', JNum 1)] = ''/x?a=1&b=2''
   \<and> generateCacheKey_body ''/x'' [(''a'', JUndefined), (''b'', JNum 1)] = ''/x?b=1''"
proof -
  have a: "generateCacheKey_body endpoint [] = endpoint"
    by (simp add: generateCacheKey_body_def Object_keys_def)
  have b: "distinct (Object_keys q1) \<and> distinct (Object_keys q2) \<and> map_of q1 = map_of q2
        \<longrightarrow> generateCacheKey_body endpoint q1 = generateCacheKey_body endpoint q2"
  proof
    assume h: "distinct (Object_keys q1) \<and> distinct (Object_keys q2) \<and> map_of q1 = map_of q2"
    then have "kept_keys q1 = kept_keys q2" "property q1 = property q2"
      by (simp_all add: same_mapping)
    then show "generateCacheKey_body endpoint q1 = generateCacheKey_body endpoint q2"
      by (simp add: body_unfold pair_text_def [abs_def])
  qed
  have c: "generateCacheKey_body ''/x'' [(''b'', JNum 2), (''a'', JNum 1)] = ''/x?a=1&b=2''"
    by code_simp
  have d: "generateCacheKey_body ''/x'' [(''a'', JUndefined), (''b'', JNum 1)] = ''/x?b=1''"
    by code_simp
  from a b c d body_unfold [of endpoint query] show ?thesis by blast
qed

theorem generateCacheKey_sorted_pairs_witness:
  "distinct (Object_keys [(''b'', JNum 2), (''a'', JNum 1)])
   \<and> distinct (Object_keys [(''a'', JNum 1), (''b'', JNum 2)])
   \<and> map_of [(''b'', JNum 2), (''a'', JNum 1)] = map_of [(''a'', JNum 1), (''b'', JNum 2)]
   \<and> generateCacheKey_body ''/x'' [(''b'', JNum 2), (''a'', JNum 1)]
       = generateCacheKey_body ''/x'' [(''a'', JNum 1), (''b'', JNum 2)]"
proof -
  have m: "map_of [(''b'', JNum 2), (''a'', JNum 1)] = map_of [(''a'', JNum 1), (''b'', JNum 2)]"
    by (auto simp: fun_eq_iff)
  have d: "distinct (Object_keys [(''b'', JNum 2), (''a'', JNum 1)])"
          "distinct (Object_keys [(''a'', JNum 1), (''b'', JNum 2)])"
    by (simp_all add: Object_keys_def)
  from generateCacheKey_sorted_pairs [where ?q1.0 = "[(''b'', JNum 2), (''a'', JNum 1)]"
        and ?q2.0 = "[(''a'', JNum 1), (''b'', JNum 2)]" and endpoint = "''/x''"] m d
  show ?thesis by blast
qed

text \<open>
  As claim C3 words the algorithm, a mapping that is not empty always gets the \<open>?\<close>; the
  code leaves it out when no key remains.
\<close>

theorem generateCacheKey_all_dropped:
  "generateCacheKey_body ''/x'' [(''a'', JUndefined)] = ''/x''
   \<and> spec_generateCacheKey ''/x'' [(''a'', JUndefined)] = ''/x?''
   \<and> generateCacheKey_body ''/x'' [(''a'', JUndefined)]
       \<noteq> spec_generateCacheKey ''/x'' [(''a'', JUndefined)]"
  by code_simp

section \<open>A value written and read back\<close>




end
